theory Spec2Isabelle
  imports Main
begin

section \<open>Strings of code points\<close>

text \<open>
  A Python \<open>str\<close> is a sequence of Unicode code points, and every operation of
  \<open>ResponseParser\<close> (iteration, \<open>strip\<close>, \<open>in\<close>, the regular expressions) works on code
  points. A string is therefore a list of integers (the values of \<open>ord\<close>). \<open>u\<close> writes
  an ASCII literal. \<open>pat\<close> writes the ASCII part of a pattern literal: the source's
  backslash is written \<open>/\<close> (no pattern of the source contains a slash), every other
  character stands for itself. Characters beyond ASCII are written as their code points.
\<close>

type_synonym cp = int
type_synonym ustr = "cp list"

definition u :: "string \<Rightarrow> ustr" where
  "u s = map of_char s"

definition pat :: "string \<Rightarrow> ustr" where
  "pat s = map (\<lambda>c. if c = CHR ''/'' then 92 else of_char c) s"

text \<open>
  The Unicode tables the code reads are not part of the repository.
  \<^item> \<open>isspace\<close> is the white-space table shared by \<open>str.strip\<close> and the pattern class
    \<^verbatim>\<open>\s\<close>; it is small and written out (29 code points).
  \<^item> \<open>str.isupper\<close> of a one-character string is the parameter \<open>isupper\<close> of the
    functions that call it; \<open>ascii_isupper\<close> is its restriction to ASCII.
  \<^item> Matching under the flag \<^verbatim>\<open>(?i)\<close> reads the case-folding table: \<open>ieq c x\<close> says
    that the pattern character \<open>c\<close> matches the text character \<open>x\<close> when case is ignored.
    It is a parameter as well; \<open>ascii_ieq\<close> folds the ASCII letters only, which is what
    the engine does on texts and labels of ASCII characters and of characters without
    case.
\<close>

definition isspace :: "cp \<Rightarrow> bool" where
  "isspace c = ((0x09 \<le> c \<and> c \<le> 0x0D) \<or> (0x1C \<le> c \<and> c \<le> 0x20) \<or> c = 0x85 \<or> c = 0xA0
      \<or> c = 0x1680 \<or> (0x2000 \<le> c \<and> c \<le> 0x200A) \<or> c = 0x2028 \<or> c = 0x2029
      \<or> c = 0x202F \<or> c = 0x205F \<or> c = 0x3000)"

definition ascii_isupper :: "cp \<Rightarrow> bool" where
  "ascii_isupper c = (65 \<le> c \<and> c \<le> 90)"

definition ascii_lower :: "cp \<Rightarrow> cp" where
  "ascii_lower c = (if 65 \<le> c \<and> c \<le> 90 then c + 32 else c)"

definition ascii_ieq :: "cp \<Rightarrow> cp \<Rightarrow> bool" where
  "ascii_ieq c x = (ascii_lower x = ascii_lower c)"

text \<open>\<^verbatim>\<open>text.strip()\<close>: white space removed at both ends.\<close>

definition strip :: "ustr \<Rightarrow> ustr" where
  "strip s = rev (dropWhile isspace (rev (dropWhile isspace s)))"

section \<open>parse_first_capital and parse_last_capital\<close>

text \<open>
  \<^verbatim>\<open>for t in <seq>: if t.isupper() and (t in options): return t\<close> followed by
  \<^verbatim>\<open>return ''\<close>. \<open>t\<close> is a one-character string and \<open>options\<close> a list of strings, so
  \<open>t in options\<close> is list membership of \<open>[t]\<close>. Neither function has a failing path.
\<close>

fun capital_scan :: "(cp \<Rightarrow> bool) \<Rightarrow> ustr \<Rightarrow> ustr list \<Rightarrow> ustr" where
  "capital_scan isupper [] options = []"
| "capital_scan isupper (t # ts) options =
     (if isupper t \<and> [t] \<in> set options then [t] else capital_scan isupper ts options)"

definition parse_first_capital :: "(cp \<Rightarrow> bool) \<Rightarrow> ustr \<Rightarrow> ustr list \<Rightarrow> ustr" where
  "parse_first_capital isupper text options = capital_scan isupper text options"

definition parse_last_capital :: "(cp \<Rightarrow> bool) \<Rightarrow> ustr \<Rightarrow> ustr list \<Rightarrow> ustr" where
  "parse_last_capital isupper text options = capital_scan isupper (rev text) options"

section \<open>process_options\<close>

text \<open>
  \<open>re.escape\<close> puts a backslash before each of the characters
  \<^verbatim>\<open>()[]{}?*+-|^$\.&~#\<close>, space, tab, newline, carriage return, vertical tab and form
  feed, and leaves every other character alone. \<open>'|'.join\<close> of the empty list is the
  empty string.
\<close>

definition special :: "cp \<Rightarrow> bool" where
  "special c = (c \<in> set [9, 10, 11, 12, 13, 32, 35, 36, 38, 40, 41, 42, 43, 45, 46, 63,
                          91, 92, 93, 94, 123, 124, 125, 126])"

definition re_escape :: "ustr \<Rightarrow> ustr" where
  "re_escape s = concat (map (\<lambda>c. if special c then [92, c] else [c]) s)"

fun join :: "ustr \<Rightarrow> ustr list \<Rightarrow> ustr" where
  "join sep [] = []"
| "join sep [x] = x"
| "join sep (x # y # ys) = x @ sep @ join sep (y # ys)"

definition process_options :: "ustr list \<Rightarrow> ustr" where
  "process_options options = join [124] (map re_escape options)"

section \<open>The regular expressions of the \<open>re\<close> module\<close>

text \<open>
  The patterns are strings that \<open>re.search\<close> compiles and runs, so the model has both
  halves of the engine, for the fragment of the syntax that the patterns of
  \<open>ResponseParser\<close> are written in: literals, \<^verbatim>\<open>.\<close>, \<^verbatim>\<open>^\<close>, \<^verbatim>\<open>$\<close>, the escapes \<^verbatim>\<open>\s\<close>, \<^verbatim>\<open>\S\<close>
  and backslash before a character that is no ASCII letter or digit, character sets of
  such items, capturing groups, \<^verbatim>\<open>(?:...)\<close>, \<^verbatim>\<open>|\<close>, the repeats \<^verbatim>\<open>?\<close>, \<^verbatim>\<open>*\<close>, \<^verbatim>\<open>+\<close> (greedy, or lazy
  with a following \<^verbatim>\<open>?\<close>) of one-character items, a leading \<^verbatim>\<open>(?i)\<close>, and \<^verbatim>\<open>{\<close> as a literal.
  A pattern that the engine rejects gives \<open>Re_error\<close> (the exception \<open>re.error\<close>); syntax
  beyond the fragment gives \<open>Not_modelled\<close>, so that no result is claimed for it.
  \<open>Index_error\<close> is the exception of \<open>match.group(n)\<close> for a group the pattern lacks.
  Warnings of the engine are not exceptions and are not modelled.
\<close>

datatype error = Re_error | Index_error | Not_modelled

datatype token = Ch cp | Esc cp

datatype citem = CLit cp | CCat bool

datatype atom = Lit cp | Any | Cat bool | In "citem list"

datatype quant = Opt | Star | Plus

datatype regex =
    Empty
  | Atom atom
  | Rep quant bool atom
  | Bol
  | Eol
  | Seq regex regex
  | Alt regex regex
  | Group nat regex

subsection \<open>Compilation\<close>

text \<open>
  The tokenizer reads a backslash together with the character after it; a backslash at
  the end of the pattern is an error.
\<close>

fun tokenize :: "ustr \<Rightarrow> error + token list" where
  "tokenize [] = Inr []"
| "tokenize [c] = (if c = 92 then Inl Re_error else Inr [Ch c])"
| "tokenize (c # d # cs) =
     (if c = 92 then (case tokenize cs of Inl e \<Rightarrow> Inl e | Inr ts \<Rightarrow> Inr (Esc d # ts))
      else (case tokenize (d # cs) of Inl e \<Rightarrow> Inl e | Inr ts \<Rightarrow> Inr (Ch c # ts)))"

definition ascii_alnum :: "cp \<Rightarrow> bool" where
  "ascii_alnum c = ((48 \<le> c \<and> c \<le> 57) \<or> (65 \<le> c \<and> c \<le> 90) \<or> (97 \<le> c \<and> c \<le> 122))"

text \<open>An escape outside a set: \<^verbatim>\<open>\s\<close> (115), \<^verbatim>\<open>\S\<close> (83), or an escaped literal.\<close>

definition escape_atom :: "cp \<Rightarrow> error + atom" where
  "escape_atom c =
     (if c = 115 then Inr (Cat True) else if c = 83 then Inr (Cat False)
      else if ascii_alnum c then Inl Not_modelled else Inr (Lit c))"

text \<open>One member of a set: a character, \<^verbatim>\<open>\s\<close>, \<^verbatim>\<open>\S\<close> or an escaped literal.\<close>

fun class_item :: "token \<Rightarrow> error + citem" where
  "class_item (Ch c) = Inr (CLit c)"
| "class_item (Esc c) =
     (if c = 115 then Inr (CCat True) else if c = 83 then Inr (CCat False)
      else if ascii_alnum c then Inl Not_modelled else Inr (CLit c))"

fun mk_seq :: "regex list \<Rightarrow> regex" where
  "mk_seq [] = Empty"
| "mk_seq (r # rs) = Seq r (mk_seq rs)"

fun mk_alt :: "regex list \<Rightarrow> regex" where
  "mk_alt [] = Empty"
| "mk_alt [r] = r"
| "mk_alt (r # rs) = Alt r (mk_alt rs)"

definition next_is :: "cp \<Rightarrow> token list \<Rightarrow> bool" where
  "next_is c ts = (case ts of Ch d # _ \<Rightarrow> d = c | _ \<Rightarrow> False)"

definition quant_of :: "cp \<Rightarrow> quant" where
  "quant_of c = (if c = 63 then Opt else if c = 42 then Star else Plus)"

text \<open>
  A repeat applies to the last item of the current branch: "nothing to repeat" when
  there is none or it is \<^verbatim>\<open>^\<close> or \<^verbatim>\<open>$\<close>, "multiple repeat" when it is a repeat already.
\<close>

definition apply_quant :: "quant \<Rightarrow> bool \<Rightarrow> regex list \<Rightarrow> error + regex list" where
  "apply_quant q greedy cur =
     (if cur = [] then Inl Re_error
      else case last cur of
             Atom a \<Rightarrow> Inr (butlast cur @ [Rep q greedy a])
           | Rep _ _ _ \<Rightarrow> Inl Re_error
           | Bol \<Rightarrow> Inl Re_error
           | Eol \<Rightarrow> Inl Re_error
           | _ \<Rightarrow> Inl Not_modelled)"

definition close_group :: "nat option \<Rightarrow> regex \<Rightarrow> regex" where
  "close_group k r = (case k of None \<Rightarrow> r | Some n \<Rightarrow> Group n r)"

text \<open>
  The parser reads the tokens from left to right. \<open>g\<close> counts the capturing groups
  opened so far (a group is numbered when it opens), \<open>st\<close> holds the enclosing groups
  (kind, finished branches, items of the branch in progress), \<open>alts\<close> the finished
  branches of the innermost group and \<open>cur\<close> the items of its branch in progress.
  \<open>parse_set\<close> reads the members of a character set up to its closing bracket; a
  closing bracket that comes first in the set is a member, not the end.
  Code points: \<open>|\<close> 124, \<open>(\<close> 40, \<open>)\<close> 41, \<open>[\<close> 91, \<open>]\<close> 93, \<open>?\<close> 63, \<open>*\<close> 42, \<open>+\<close> 43,
  \<open>{\<close> 123, \<open>.\<close> 46, \<open>^\<close> 94, \<open>$\<close> 36, \<open>-\<close> 45, \<open>:\<close> 58, \<open>,\<close> 44.
\<close>

type_synonym frame = "nat option \<times> regex list \<times> regex list"

fun parse :: "nat \<Rightarrow> frame list \<Rightarrow> regex list \<Rightarrow> regex list \<Rightarrow> token list
                \<Rightarrow> error + (nat \<times> regex)"
  and parse_set :: "nat \<Rightarrow> frame list \<Rightarrow> regex list \<Rightarrow> regex list \<Rightarrow> citem list
                \<Rightarrow> token list \<Rightarrow> error + (nat \<times> regex)" where
  "parse g st alts cur [] =
     (if st = [] then Inr (g, mk_alt (alts @ [mk_seq cur])) else Inl Re_error)"
| "parse g st alts cur (Esc c # ts) =
     (case escape_atom c of Inl e \<Rightarrow> Inl e
      | Inr a \<Rightarrow> parse g st alts (cur @ [Atom a]) ts)"
| "parse g st alts cur (Ch c # ts) =
     (if c = 124 then parse g st (alts @ [mk_seq cur]) [] ts
      else if c = 41 then
        (case st of [] \<Rightarrow> Inl Re_error
         | (k, alts', cur') # st' \<Rightarrow>
             parse g st' alts' (cur' @ [close_group k (mk_alt (alts @ [mk_seq cur]))]) ts)
      else if c = 40 then
        (if next_is 63 ts then
           (if next_is 58 (tl ts) then parse g ((None, alts, cur) # st) [] [] (tl (tl ts))
            else Inl Not_modelled)
         else parse (Suc g) ((Some (Suc g), alts, cur) # st) [] [] ts)
      else if c = 91 then
        (if next_is 94 ts then Inl Not_modelled else parse_set g st alts cur [] ts)
      else if c = 63 \<or> c = 42 \<or> c = 43 then
        (if next_is 43 ts then
           (case apply_quant (quant_of c) True cur of Inl e \<Rightarrow> Inl e
            | Inr cur' \<Rightarrow> Inl Not_modelled)
         else if next_is 63 ts then
           (case apply_quant (quant_of c) False cur of Inl e \<Rightarrow> Inl e
            | Inr cur' \<Rightarrow> parse g st alts cur' (tl ts))
         else
           (case apply_quant (quant_of c) True cur of Inl e \<Rightarrow> Inl e
            | Inr cur' \<Rightarrow> parse g st alts cur' ts))
      else if c = 123 then
        (if (\<exists>d\<in>set [44, 48, 49, 50, 51, 52, 53, 54, 55, 56, 57]. next_is d ts)
         then Inl Not_modelled
         else parse g st alts (cur @ [Atom (Lit c)]) ts)
      else if c = 46 then parse g st alts (cur @ [Atom Any]) ts
      else if c = 94 then parse g st alts (cur @ [Bol]) ts
      else if c = 36 then parse g st alts (cur @ [Eol]) ts
      else parse g st alts (cur @ [Atom (Lit c)]) ts)"
| "parse_set g st alts cur acc [] = Inl Re_error"
| "parse_set g st alts cur acc (t # ts) =
     (if t = Ch 93 \<and> acc \<noteq> [] then parse g st alts (cur @ [Atom (In acc)]) ts
      else case class_item t of Inl e \<Rightarrow> Inl e
           | Inr it \<Rightarrow>
               (if next_is 45 ts then
                  (if tl ts = [] then Inl Re_error
                   else if next_is 93 (tl ts)
                     then parse g st alts (cur @ [Atom (In (acc @ [it, CLit 45]))]) (tl (tl ts))
                   else Inl Not_modelled)
                else parse_set g st alts cur (acc @ [it]) ts))"

text \<open>
  A compiled pattern: whether case is ignored, the number of capturing groups, and the
  expression. \<^verbatim>\<open>(?i)\<close> is a global flag and stands at the start of the pattern.
\<close>

datatype compiled = Compiled (ignorecase: bool) (ngroups: nat) (body: regex)

definition re_compile :: "ustr \<Rightarrow> error + compiled" where
  "re_compile p =
     (case tokenize p of Inl e \<Rightarrow> Inl e
      | Inr ts \<Rightarrow>
          (if take 4 ts = [Ch 40, Ch 63, Ch 105, Ch 41]
           then (case parse 0 [] [] [] (drop 4 ts) of Inl e \<Rightarrow> Inl e
                 | Inr (g, r) \<Rightarrow> Inr (Compiled True g r))
           else (case parse 0 [] [] [] ts of Inl e \<Rightarrow> Inl e
                 | Inr (g, r) \<Rightarrow> Inr (Compiled False g r))))"

subsection \<open>Matching\<close>

text \<open>
  The engine backtracks: alternatives are tried from left to right, a greedy repeat
  tries the longest run first and a lazy one the shortest, and the first way that
  reaches the end of the pattern is the match. \<open>rmatch\<close> returns every way an
  expression can match at a position, in the order in which the engine tries them, so
  that the head of the list is the engine's match. A state is the position, the text
  from that position on, and the groups captured so far (most recent first).
  \<open>eq c x\<close> compares a pattern character with a text character, \<open>dotall\<close> is the flag
  \<open>re.DOTALL\<close>. \<^verbatim>\<open>$\<close> matches at the end of the text and before a newline that ends it.
\<close>

type_synonym captures = "(nat \<times> ustr) list"
type_synonym mstate = "nat \<times> ustr \<times> captures"

fun citem_match :: "(cp \<Rightarrow> cp \<Rightarrow> bool) \<Rightarrow> citem \<Rightarrow> cp \<Rightarrow> bool" where
  "citem_match eq (CLit c) x = eq c x"
| "citem_match eq (CCat b) x = (isspace x = b)"

fun atom_match :: "(cp \<Rightarrow> cp \<Rightarrow> bool) \<Rightarrow> bool \<Rightarrow> atom \<Rightarrow> cp \<Rightarrow> bool" where
  "atom_match eq dotall (Lit c) x = eq c x"
| "atom_match eq dotall Any x = (dotall \<or> x \<noteq> 10)"
| "atom_match eq dotall (Cat b) x = (isspace x = b)"
| "atom_match eq dotall (In items) x = (\<exists>it\<in>set items. citem_match eq it x)"

definition counts :: "quant \<Rightarrow> bool \<Rightarrow> nat \<Rightarrow> nat list" where
  "counts q greedy n =
     (let ks = (case q of Opt \<Rightarrow> [0..<Suc (min n 1)] | Star \<Rightarrow> [0..<Suc n] | Plus \<Rightarrow> [1..<Suc n])
      in if greedy then rev ks else ks)"

fun rmatch :: "(cp \<Rightarrow> cp \<Rightarrow> bool) \<Rightarrow> bool \<Rightarrow> regex \<Rightarrow> mstate \<Rightarrow> mstate list" where
  "rmatch eq dotall Empty s = [s]"
| "rmatch eq dotall (Atom a) (i, rest, c) =
     (case rest of [] \<Rightarrow> []
      | x # xs \<Rightarrow> if atom_match eq dotall a x then [(Suc i, xs, c)] else [])"
| "rmatch eq dotall (Rep q greedy a) (i, rest, c) =
     map (\<lambda>k. (i + k, drop k rest, c))
         (counts q greedy (length (takeWhile (atom_match eq dotall a) rest)))"
| "rmatch eq dotall Bol (i, rest, c) = (if i = 0 then [(i, rest, c)] else [])"
| "rmatch eq dotall Eol (i, rest, c) = (if rest = [] \<or> rest = [10] then [(i, rest, c)] else [])"
| "rmatch eq dotall (Seq r1 r2) s =
     concat (map (\<lambda>s'. rmatch eq dotall r2 s') (rmatch eq dotall r1 s))"
| "rmatch eq dotall (Alt r1 r2) s = rmatch eq dotall r1 s @ rmatch eq dotall r2 s"
| "rmatch eq dotall (Group n r) (i, rest, c) =
     map (\<lambda>(j, rest', c'). (j, rest', (n, take (j - i) rest) # c'))
         (rmatch eq dotall r (i, rest, c))"

text \<open>
  A match object: the number of groups of the pattern, the matched text (group 0) and
  the captured groups. \<open>search_from\<close> tries the start positions from left to right, the
  end of the text included.
\<close>

datatype match = Match (mgroups: nat) (whole: ustr) (caps: captures)

fun search_from :: "(cp \<Rightarrow> cp \<Rightarrow> bool) \<Rightarrow> bool \<Rightarrow> nat \<Rightarrow> regex \<Rightarrow> nat \<Rightarrow> ustr \<Rightarrow> match option" where
  "search_from eq dotall g r i [] =
     (case rmatch eq dotall r (i, [], []) of [] \<Rightarrow> None
      | (j, rest', c) # _ \<Rightarrow> Some (Match g [] c))"
| "search_from eq dotall g r i (x # xs) =
     (case rmatch eq dotall r (i, x # xs, []) of [] \<Rightarrow> search_from eq dotall g r (Suc i) xs
      | (j, rest', c) # _ \<Rightarrow> Some (Match g (take (j - i) (x # xs)) c))"

definition lit_eq :: "(cp \<Rightarrow> cp \<Rightarrow> bool) \<Rightarrow> bool \<Rightarrow> cp \<Rightarrow> cp \<Rightarrow> bool" where
  "lit_eq ieq ic c x = (if ic then ieq c x else x = c)"

definition re_search :: "(cp \<Rightarrow> cp \<Rightarrow> bool) \<Rightarrow> bool \<Rightarrow> ustr \<Rightarrow> ustr \<Rightarrow> error + match option" where
  "re_search ieq dotall pattern text =
     (case re_compile pattern of Inl e \<Rightarrow> Inl e
      | Inr p \<Rightarrow> Inr (search_from (lit_eq ieq (ignorecase p)) dotall (ngroups p) (body p) 0 text))"

text \<open>\<open>match.group(n)\<close>: \<open>None\<close> for a group that took no part in the match.\<close>

definition group :: "match \<Rightarrow> nat \<Rightarrow> error + ustr option" where
  "group m n =
     (if n = 0 then Inr (Some (whole m))
      else if mgroups m < n then Inl Index_error
      else Inr (map_of (caps m) n))"

section \<open>parse_first_option and parse_first_option_with_choices\<close>

text \<open>
  The two pattern lists of the source, with \<open>oc\<close> for the interpolated
  \<open>options_concat\<close> (the f-string's doubled braces are single braces). In both lists the
  fourteenth literal is not followed by a comma, so Python joins it with the fifteenth
  into one pattern: each list has fifty patterns.
\<close>

definition patterns_with_choices :: "ustr \<Rightarrow> ustr list" where
  "patterns_with_choices oc =
     [[0x7B54, 0x6848, 0x662F] @ pat ''?/s*(['' @ oc @ pat ''])'',
      [0x7B54, 0x6848, 0x662F] @ pat ''?/s*'' @ [0xFF1A] @ pat ''/s*(['' @ oc @ pat ''])'',
      [0x7B54, 0x6848, 0x662F] @ pat ''?/s*:/s*(['' @ oc @ pat ''])'',
      [0x7B54, 0x6848, 0x9009, 0x9879, 0x5E94] @ pat ''?'' @ [0x8BE5] @ pat ''?'' @ [0x662F] @ pat ''/s*(['' @ oc @ pat ''])'',
      [0x7B54, 0x6848, 0x9009, 0x9879, 0x5E94] @ pat ''?'' @ [0x8BE5] @ pat ''?'' @ [0x4E3A] @ pat ''/s*(['' @ oc @ pat ''])'',
      [0x7B54, 0x6848, 0x5E94, 0x8BE5] @ pat ''?'' @ [0x662F] @ pat ''/s*(['' @ oc @ pat ''])'',
      [0x7B54, 0x6848, 0x5E94, 0x8BE5] @ pat ''?'' @ [0x9009] @ pat ''/s*(['' @ oc @ pat ''])'',
      [0x7B54, 0x6848, 0x9009, 0x9879, 0x4E3A] @ pat ''?/s*'' @ [0xFF1A] @ pat ''/s*(['' @ oc @ pat ''])'',
      [0x7B54, 0x6848, 0x9009, 0x9879, 0x4E3A] @ pat ''?/s+/(?/*?/*?(['' @ oc @ pat ''])/*?/*?/)?'',
      [0x7B54, 0x6848, 0x9009, 0x9879, 0x662F] @ pat ''?/s*:/s*(['' @ oc @ pat ''])'',
      [0x7B54, 0x6848, 0x4E3A] @ pat ''/s*(['' @ oc @ pat ''])'',
      [0x7B54, 0x6848, 0x9009] @ pat ''/s*(['' @ oc @ pat ''])'',
      [0x9009, 0x62E9] @ pat ''?/s*(['' @ oc @ pat ''])'',
      [0x6545, 0x9009] @ pat ''?/s*(['' @ oc @ pat ''])''
        @ [0x53EA, 0x6709, 0x9009] @ pat ''?'' @ [0x9879] @ pat ''?/s?(['' @ oc @ pat ''])/s?'' @ [0x662F] @ pat ''?'' @ [0x5BF9],
      [0x53EA, 0x6709, 0x9009] @ pat ''?'' @ [0x9879] @ pat ''?/s?(['' @ oc @ pat ''])/s?'' @ [0x662F] @ pat ''?'' @ [0x9519],
      [0x53EA, 0x6709, 0x9009] @ pat ''?'' @ [0x9879] @ pat ''?/s?(['' @ oc @ pat ''])/s?'' @ [0x4E0D] @ pat ''?'' @ [0x6B63, 0x786E],
      [0x53EA, 0x6709, 0x9009] @ pat ''?'' @ [0x9879] @ pat ''?/s?(['' @ oc @ pat ''])/s?'' @ [0x9519, 0x8BEF],
      [0x8BF4, 0x6CD5, 0x4E0D] @ pat ''?'' @ [0x5BF9, 0x9009] @ pat ''?'' @ [0x9879] @ pat ''?'' @ [0x7684] @ pat ''?'' @ [0x662F] @ pat ''/s?(['' @ oc @ pat ''])'',
      [0x8BF4, 0x6CD5, 0x4E0D] @ pat ''?'' @ [0x6B63, 0x786E, 0x9009] @ pat ''?'' @ [0x9879] @ pat ''?'' @ [0x7684] @ pat ''?'' @ [0x662F] @ pat ''/s?(['' @ oc @ pat ''])'',
      [0x8BF4, 0x6CD5, 0x9519, 0x8BEF, 0x9009] @ pat ''?'' @ [0x9879] @ pat ''?'' @ [0x7684] @ pat ''?'' @ [0x662F] @ pat ''/s?(['' @ oc @ pat ''])'',
      pat ''(['' @ oc @ pat ''])/s?'' @ [0x662F, 0x6B63, 0x786E, 0x7684],
      pat ''(['' @ oc @ pat ''])/s?'' @ [0x662F, 0x6B63, 0x786E, 0x7B54, 0x6848],
      [0x9009, 0x9879] @ pat ''/s?(['' @ oc @ pat ''])/s?'' @ [0x6B63, 0x786E],
      [0x6240, 0x4EE5, 0x7B54] @ pat ''/s?(['' @ oc @ pat ''])'',
      [0x6240, 0x4EE5] @ pat ''/s?(['' @ oc @ pat ''][.'' @ [0x3002] @ pat ''$]?$)'',
      [0x6240, 0x6709] @ pat ''/s?(['' @ oc @ pat ''][.'' @ [0x3002] @ pat ''$]?$)'',
      pat ''[/s'' @ [0xFF0C, 0xFF1A] @ pat '':,](['' @ oc @ pat ''])['' @ [0x3002, 0xFF0C] @ pat '',/.]?$'',
      pat ''[/s'' @ [0xFF0C] @ pat '','' @ [0xFF1A] @ pat '':]['' @ [0x6545, 0x5373] @ pat ''](['' @ oc @ pat ''])['' @ [0x3002] @ pat ''/.]?$'',
      pat ''[/s'' @ [0xFF0C] @ pat '','' @ [0xFF1A] @ pat '':]'' @ [0x56E0, 0x6B64] @ pat ''(['' @ oc @ pat ''])['' @ [0x3002] @ pat ''/.]?$'',
      pat ''['' @ [0x662F, 0x4E3A, 0x3002] @ pat '']/s?(['' @ oc @ pat ''])['' @ [0x3002] @ pat ''/.]?$'',
      [0x56E0, 0x6B64] @ pat ''/s?(['' @ oc @ pat ''])['' @ [0x3002] @ pat ''/.]?$'',
      [0x663E, 0x7136] @ pat ''/s?(['' @ oc @ pat ''])['' @ [0x3002] @ pat ''/.]?$'',
      [0x7B54, 0x6848, 0x662F] @ pat ''/s?(/S+)(?:'' @ [0x3002] @ pat ''|$)'',
      [0x7B54, 0x6848, 0x5E94, 0x8BE5, 0x662F] @ pat ''/s?(/S+)(?:'' @ [0x3002] @ pat ''|$)'',
      [0x7B54, 0x6848, 0x4E3A] @ pat ''/s?(/S+)(?:'' @ [0x3002] @ pat ''|$)'',
      pat ''(?i)ANSWER/s*:/s*(['' @ oc @ pat ''])'',
      pat ''[Tt]he answer is:?/s+/(?(['' @ oc @ pat ''])/)?'',
      pat ''[Tt]he answer is:?/s+/(?/*?/*?(['' @ oc @ pat ''])/*?/*?/)?'',
      pat ''[Tt]he answer is option:?/s+/(?(['' @ oc @ pat ''])/)?'',
      pat ''[Tt]he correct answer is:?/s+/(?(['' @ oc @ pat ''])/)?'',
      pat ''[Tt]he correct answer is option:?/s+/(?(['' @ oc @ pat ''])/)?'',
      pat ''[Tt]he correct answer is:?.*?boxed{(['' @ oc @ pat ''])}'',
      pat ''[Tt]he correct option is:?.*?boxed{(['' @ oc @ pat ''])}'',
      pat ''[Tt]he correct answer option is:?.*?boxed{(['' @ oc @ pat ''])}'',
      pat ''[Tt]he answer to the question is:?/s+/(?(['' @ oc @ pat ''])/)?'',
      pat ''^'' @ [0x9009, 0x9879] @ pat ''/s?(['' @ oc @ pat ''])'',
      pat ''^(['' @ oc @ pat ''])/s?'' @ [0x9009] @ pat ''?'' @ [0x9879],
      pat ''(/s|^)['' @ oc @ pat ''][/s'' @ [0x3002, 0xFF0C] @ pat '','' @ [0xFF1A] @ pat '':/.$]'',
      pat ''1./s?(.*?)$'',
      pat ''1./s?(['' @ oc @ pat ''])[.'' @ [0x3002] @ pat ''$]?$'']"

definition cushion_patterns_with_choices :: "ustr \<Rightarrow> ustr list" where
  "cushion_patterns_with_choices oc =
     [pat ''(['' @ oc @ pat '']):'',
      pat ''(['' @ oc @ pat ''])'']"

definition patterns :: "ustr \<Rightarrow> ustr list" where
  "patterns oc =
     [[0x7B54, 0x6848, 0x662F] @ pat ''?/s*(['' @ oc @ pat ''])'',
      [0x7B54, 0x6848, 0x662F] @ pat ''?/s*'' @ [0xFF1A] @ pat ''/s*(['' @ oc @ pat ''])'',
      [0x7B54, 0x6848, 0x662F] @ pat ''?/s*:/s*(['' @ oc @ pat ''])'',
      [0x7B54, 0x6848, 0x9009, 0x9879, 0x5E94] @ pat ''?'' @ [0x8BE5] @ pat ''?'' @ [0x662F] @ pat ''/s*(['' @ oc @ pat ''])'',
      [0x7B54, 0x6848, 0x9009, 0x9879, 0x5E94] @ pat ''?'' @ [0x8BE5] @ pat ''?'' @ [0x4E3A] @ pat ''/s*(['' @ oc @ pat ''])'',
      [0x7B54, 0x6848, 0x5E94, 0x8BE5] @ pat ''?'' @ [0x662F] @ pat ''/s*(['' @ oc @ pat ''])'',
      [0x7B54, 0x6848, 0x5E94, 0x8BE5] @ pat ''?'' @ [0x9009] @ pat ''/s*(['' @ oc @ pat ''])'',
      [0x7B54, 0x6848, 0x9009, 0x9879, 0x4E3A] @ pat ''?/s*'' @ [0xFF1A] @ pat ''/s*(['' @ oc @ pat ''])'',
      [0x7B54, 0x6848, 0x9009, 0x9879, 0x4E3A] @ pat ''?/s+/(?/*?/*?(['' @ oc @ pat ''])/*?/*?/)?'',
      [0x7B54, 0x6848, 0x9009, 0x9879, 0x662F] @ pat ''?/s*:/s*(['' @ oc @ pat ''])'',
      [0x7B54, 0x6848, 0x4E3A] @ pat ''/s*(['' @ oc @ pat ''])'',
      [0x7B54, 0x6848, 0x9009] @ pat ''/s*(['' @ oc @ pat ''])'',
      [0x9009, 0x62E9] @ pat ''?/s*(['' @ oc @ pat ''])'',
      [0x6545, 0x9009] @ pat ''?/s*(['' @ oc @ pat ''])''
        @ [0x53EA, 0x6709, 0x9009] @ pat ''?'' @ [0x9879] @ pat ''?/s?(['' @ oc @ pat ''])/s?'' @ [0x662F] @ pat ''?'' @ [0x5BF9],
      [0x53EA, 0x6709, 0x9009] @ pat ''?'' @ [0x9879] @ pat ''?/s?(['' @ oc @ pat ''])/s?'' @ [0x662F] @ pat ''?'' @ [0x9519],
      [0x53EA, 0x6709, 0x9009] @ pat ''?'' @ [0x9879] @ pat ''?/s?(['' @ oc @ pat ''])/s?'' @ [0x4E0D] @ pat ''?'' @ [0x6B63, 0x786E],
      [0x53EA, 0x6709, 0x9009] @ pat ''?'' @ [0x9879] @ pat ''?/s?(['' @ oc @ pat ''])/s?'' @ [0x9519, 0x8BEF],
      [0x8BF4, 0x6CD5, 0x4E0D] @ pat ''?'' @ [0x5BF9, 0x9009] @ pat ''?'' @ [0x9879] @ pat ''?'' @ [0x7684] @ pat ''?'' @ [0x662F] @ pat ''/s?(['' @ oc @ pat ''])'',
      [0x8BF4, 0x6CD5, 0x4E0D] @ pat ''?'' @ [0x6B63, 0x786E, 0x9009] @ pat ''?'' @ [0x9879] @ pat ''?'' @ [0x7684] @ pat ''?'' @ [0x662F] @ pat ''/s?(['' @ oc @ pat ''])'',
      [0x8BF4, 0x6CD5, 0x9519, 0x8BEF, 0x9009] @ pat ''?'' @ [0x9879] @ pat ''?'' @ [0x7684] @ pat ''?'' @ [0x662F] @ pat ''/s?(['' @ oc @ pat ''])'',
      pat ''(['' @ oc @ pat ''])/s?'' @ [0x662F, 0x6B63, 0x786E, 0x7684],
      pat ''(['' @ oc @ pat ''])/s?'' @ [0x662F, 0x6B63, 0x786E, 0x7B54, 0x6848],
      [0x9009, 0x9879] @ pat ''/s?(['' @ oc @ pat ''])/s?'' @ [0x6B63, 0x786E],
      [0x6240, 0x4EE5, 0x7B54] @ pat ''/s?(['' @ oc @ pat ''])'',
      [0x6240, 0x4EE5] @ pat ''/s?(['' @ oc @ pat ''][.'' @ [0x3002] @ pat ''$]?$)'',
      [0x6240, 0x6709] @ pat ''/s?(['' @ oc @ pat ''][.'' @ [0x3002] @ pat ''$]?$)'',
      pat ''[/s'' @ [0xFF0C, 0xFF1A] @ pat '':,](['' @ oc @ pat ''])['' @ [0x3002, 0xFF0C] @ pat '',/.]?$'',
      pat ''[/s'' @ [0xFF0C] @ pat '','' @ [0xFF1A] @ pat '':]['' @ [0x6545, 0x5373] @ pat ''](['' @ oc @ pat ''])['' @ [0x3002] @ pat ''/.]?$'',
      pat ''[/s'' @ [0xFF0C] @ pat '','' @ [0xFF1A] @ pat '':]'' @ [0x56E0, 0x6B64] @ pat ''(['' @ oc @ pat ''])['' @ [0x3002] @ pat ''/.]?$'',
      pat ''['' @ [0x662F, 0x4E3A, 0x3002] @ pat '']/s?(['' @ oc @ pat ''])['' @ [0x3002] @ pat ''/.]?$'',
      [0x56E0, 0x6B64] @ pat ''/s?(['' @ oc @ pat ''])['' @ [0x3002] @ pat ''/.]?$'',
      [0x663E, 0x7136] @ pat ''/s?(['' @ oc @ pat ''])['' @ [0x3002] @ pat ''/.]?$'',
      [0x7B54, 0x6848, 0x662F] @ pat ''/s?(/S+)(?:'' @ [0x3002] @ pat ''|$)'',
      [0x7B54, 0x6848, 0x5E94, 0x8BE5, 0x662F] @ pat ''/s?(/S+)(?:'' @ [0x3002] @ pat ''|$)'',
      [0x7B54, 0x6848, 0x4E3A] @ pat ''/s?(/S+)(?:'' @ [0x3002] @ pat ''|$)'',
      pat ''(?i)ANSWER/s*:/s*(['' @ oc @ pat ''])'',
      pat ''[Tt]he answer is:?/s+/(?(['' @ oc @ pat ''])/)?'',
      pat ''[Tt]he answer is:?/s+/(?/*?/*?(['' @ oc @ pat ''])/*?/*?/)?'',
      pat ''[Tt]he answer is option:?/s+/(?(['' @ oc @ pat ''])/)?'',
      pat ''[Tt]he correct answer is:?/s+/(?(['' @ oc @ pat ''])/)?'',
      pat ''[Tt]he correct answer is option:?/s+/(?(['' @ oc @ pat ''])/)?'',
      pat ''[Tt]he correct answer is:?.*?boxed{(['' @ oc @ pat ''])}'',
      pat ''[Tt]he correct option is:?.*?boxed{(['' @ oc @ pat ''])}'',
      pat ''[Tt]he correct answer option is:?.*?boxed{(['' @ oc @ pat ''])}'',
      pat ''[Tt]he answer to the question is:?/s+/(?(['' @ oc @ pat ''])/)?'',
      pat ''^'' @ [0x9009, 0x9879] @ pat ''/s?(['' @ oc @ pat ''])'',
      pat ''^(['' @ oc @ pat ''])/s?'' @ [0x9009] @ pat ''?'' @ [0x9879],
      pat ''(/s|^)['' @ oc @ pat ''][/s'' @ [0x3002, 0xFF0C] @ pat '','' @ [0xFF1A] @ pat '':/.$]'',
      pat ''1./s?(.*?)$'',
      pat ''1./s?(['' @ oc @ pat ''])[.'' @ [0x3002] @ pat ''$]?$'']"

definition cushion_patterns :: "ustr \<Rightarrow> ustr list" where
  "cushion_patterns oc =
     [pat ''(['' @ oc @ pat '']):'',
      pat ''(['' @ oc @ pat ''])'']"

text \<open>
  The loop \<^verbatim>\<open>for pattern in patterns\<close>: the text is stripped, the pattern searched with
  \<open>re.DOTALL\<close>; on a match \<open>outputs\<close> is group 1 unless that is \<open>None\<close> or empty, group 0
  otherwise; the first character \<open>i\<close> of \<open>options_concat\<close> that occurs in \<open>outputs\<close> is
  returned, and the next pattern is tried when there is none. \<open>cushion_patterns\<close> is
  assigned and never read. Each of the two functions has its own copy of the loop.
\<close>

fun option_loop_with_choices :: "(cp \<Rightarrow> cp \<Rightarrow> bool) \<Rightarrow> ustr \<Rightarrow> ustr list \<Rightarrow> ustr \<Rightarrow> error + ustr" where
  "option_loop_with_choices ieq oc [] text = Inr []"
| "option_loop_with_choices ieq oc (pattern # ps) text =
     (let text' = strip text in
      case re_search ieq True pattern text' of Inl e \<Rightarrow> Inl e
      | Inr None \<Rightarrow> option_loop_with_choices ieq oc ps text'
      | Inr (Some m) \<Rightarrow>
          (case group m 1 of Inl e \<Rightarrow> Inl e
           | Inr g1 \<Rightarrow>
               (let outputs = (if g1 \<noteq> None \<and> g1 \<noteq> Some [] then the g1 else whole m) in
                case find (\<lambda>i. i \<in> set outputs) oc of
                  Some i \<Rightarrow> Inr [i]
                | None \<Rightarrow> option_loop_with_choices ieq oc ps text')))"

definition parse_first_option_with_choices :: "(cp \<Rightarrow> cp \<Rightarrow> bool) \<Rightarrow> ustr \<Rightarrow> ustr list \<Rightarrow> error + ustr" where
  "parse_first_option_with_choices ieq text options =
     (let options_concat = process_options options
      in option_loop_with_choices ieq options_concat (patterns_with_choices options_concat) text)"

fun option_loop :: "(cp \<Rightarrow> cp \<Rightarrow> bool) \<Rightarrow> ustr \<Rightarrow> ustr list \<Rightarrow> ustr \<Rightarrow> error + ustr" where
  "option_loop ieq oc [] text = Inr []"
| "option_loop ieq oc (pattern # ps) text =
     (let text' = strip text in
      case re_search ieq True pattern text' of Inl e \<Rightarrow> Inl e
      | Inr None \<Rightarrow> option_loop ieq oc ps text'
      | Inr (Some m) \<Rightarrow>
          (case group m 1 of Inl e \<Rightarrow> Inl e
           | Inr g1 \<Rightarrow>
               (let outputs = (if g1 \<noteq> None \<and> g1 \<noteq> Some [] then the g1 else whole m) in
                case find (\<lambda>i. i \<in> set outputs) oc of
                  Some i \<Rightarrow> Inr [i]
                | None \<Rightarrow> option_loop ieq oc ps text')))"


definition parse_first_option :: "(cp \<Rightarrow> cp \<Rightarrow> bool) \<Rightarrow> ustr \<Rightarrow> ustr list \<Rightarrow> error + ustr" where
  "parse_first_option ieq text options =
     (let options_concat = process_options options
      in option_loop ieq options_concat (patterns options_concat) text)"

section \<open>parse_bracketed_answer\<close>

text \<open>
  \<^verbatim>\<open>re.search(rf'<({options})>', text)\<close>, without flags and without stripping, then
  \<^verbatim>\<open>match.group(1)\<close> or the sentinel. Group 1 encloses the whole alternation, so it takes
  part in every match.
\<close>

definition no_valid_option :: ustr where
  "no_valid_option = u ''No valid option found''"

definition parse_bracketed_answer :: "(cp \<Rightarrow> cp \<Rightarrow> bool) \<Rightarrow> ustr \<Rightarrow> ustr list \<Rightarrow> error + ustr" where
  "parse_bracketed_answer ieq text options =
     (let options' = process_options options in
      case re_search ieq False (pat ''<('' @ options' @ pat '')>'') text of Inl e \<Rightarrow> Inl e
      | Inr None \<Rightarrow> Inr no_valid_option
      | Inr (Some m) \<Rightarrow>
          (case group m 1 of Inl e \<Rightarrow> Inl e
           | Inr None \<Rightarrow> Inl Not_modelled
           | Inr (Some g1) \<Rightarrow> Inr g1))"

section \<open>Notions used in the proofs\<close>

text \<open>
  The rest of the definitions describes, for the proofs, what the engine makes of
  \<open>process_options\<close>: the tokens of the escaped and joined labels (\<open>jtoks\<close>), the
  expression of a label read literally (\<open>lits\<close>), the expression that
  \<open>parse_bracketed_answer\<close> compiles (\<open>bracket_re\<close>; an empty options list gives a group
  around the empty expression, as the single empty label does), and the search for the
  first bracketed label written as a plain scan of the text (\<open>bracket_scan\<close>).
\<close>

definition etok :: "cp \<Rightarrow> token" where
  "etok c = (if special c then Esc c else Ch c)"

fun jtoks :: "ustr list \<Rightarrow> token list" where
  "jtoks [] = []"
| "jtoks [x] = map etok x"
| "jtoks (x # y # ys) = map etok x @ Ch 124 # jtoks (y # ys)"

definition tchar :: "token \<Rightarrow> cp" where
  "tchar t = (case t of Ch c \<Rightarrow> c | Esc c \<Rightarrow> c)"

definition plain :: "token \<Rightarrow> bool" where
  "plain t = (case t of Ch c \<Rightarrow> \<not> special c \<or> c = 124 | Esc c \<Rightarrow> special c)"

definition tcons :: "token \<Rightarrow> error + token list \<Rightarrow> error + token list" where
  "tcons t r = (case r of Inl e \<Rightarrow> Inl e | Inr ts \<Rightarrow> Inr (t # ts))"

definition tapp :: "token list \<Rightarrow> error + token list \<Rightarrow> error + token list" where
  "tapp ts r = (case r of Inl e \<Rightarrow> Inl e | Inr ts' \<Rightarrow> Inr (ts @ ts'))"

definition lits :: "ustr \<Rightarrow> regex" where
  "lits x = mk_seq (map (\<lambda>c. Atom (Lit c)) x)"

definition bracketed :: "ustr \<Rightarrow> ustr \<Rightarrow> bool" where
  "bracketed t X = (take (length X + 2) t = 60 # X @ [62])"

fun bracket_scan :: "ustr list \<Rightarrow> ustr \<Rightarrow> ustr option" where
  "bracket_scan os [] = None"
| "bracket_scan os (x # xs) =
     (case find (bracketed (x # xs)) os of
        Some X \<Rightarrow> Some X
      | None \<Rightarrow> bracket_scan os xs)"

definition labels :: "ustr list \<Rightarrow> ustr list" where
  "labels os = (if os = [] then [[]] else os)"

definition bracket_re :: "ustr list \<Rightarrow> regex" where
  "bracket_re os = Seq (Atom (Lit 60)) (Seq (Group 1 (mk_alt (map lits (labels os)))) (Seq (Atom (Lit 62)) Empty))"

section \<open>Properties of the capital scans\<close>

lemma capital_scan_none:
  "\<forall>d\<in>set ts. \<not> (isupper d \<and> [d] \<in> set options) \<Longrightarrow> capital_scan isupper ts options = []"
  by (induction ts) auto

lemma capital_scan_first:
  "\<forall>d\<in>set pre. \<not> (isupper d \<and> [d] \<in> set options) \<Longrightarrow> isupper c \<Longrightarrow> [c] \<in> set options
   \<Longrightarrow> capital_scan isupper (pre @ c # suf) options = [c]"
  by (induction pre) auto

text \<open>
  C5. For every options list \<open>O\<close> and every text, \<open>parse_last_capital\<close> returns the
  rightmost character of the text that is uppercase and a member of \<open>O\<close> (as a
  one-character string) and the empty string when the text has no such character;
  \<open>parse_first_capital\<close> returns the leftmost one under the same convention.
\<close>

theorem parse_capital_rightmost_leftmost:
  "(\<forall>pre c suf. text = pre @ c # suf \<and> isupper c \<and> [c] \<in> set options
        \<and> (\<forall>d\<in>set suf. \<not> (isupper d \<and> [d] \<in> set options))
      \<longrightarrow> parse_last_capital isupper text options = [c])
   \<and> ((\<forall>d\<in>set text. \<not> (isupper d \<and> [d] \<in> set options))
      \<longrightarrow> parse_last_capital isupper text options = [])
   \<and> (\<forall>pre c suf. text = pre @ c # suf \<and> isupper c \<and> [c] \<in> set options
        \<and> (\<forall>d\<in>set pre. \<not> (isupper d \<and> [d] \<in> set options))
      \<longrightarrow> parse_first_capital isupper text options = [c])
   \<and> ((\<forall>d\<in>set text. \<not> (isupper d \<and> [d] \<in> set options))
      \<longrightarrow> parse_first_capital isupper text options = [])"
proof (intro conjI allI impI)
  fix pre c suf
  assume h: "text = pre @ c # suf \<and> isupper c \<and> [c] \<in> set options
        \<and> (\<forall>d\<in>set suf. \<not> (isupper d \<and> [d] \<in> set options))"
  then have "rev text = rev suf @ c # rev pre" by simp
  moreover from h have "\<forall>d\<in>set (rev suf). \<not> (isupper d \<and> [d] \<in> set options)" by simp
  ultimately show "parse_last_capital isupper text options = [c]"
    using h capital_scan_first [of "rev suf" isupper options c "rev pre"]
    by (simp add: parse_last_capital_def)
next
  assume "\<forall>d\<in>set text. \<not> (isupper d \<and> [d] \<in> set options)"
  then have "\<forall>d\<in>set (rev text). \<not> (isupper d \<and> [d] \<in> set options)" by simp
  then show "parse_last_capital isupper text options = []"
    unfolding parse_last_capital_def by (rule capital_scan_none)
next
  fix pre c suf
  assume "text = pre @ c # suf \<and> isupper c \<and> [c] \<in> set options
        \<and> (\<forall>d\<in>set pre. \<not> (isupper d \<and> [d] \<in> set options))"
  then show "parse_first_capital isupper text options = [c]"
    by (simp add: parse_first_capital_def capital_scan_first)
next
  assume "\<forall>d\<in>set text. \<not> (isupper d \<and> [d] \<in> set options)"
  then show "parse_first_capital isupper text options = []"
    unfolding parse_first_capital_def by (rule capital_scan_none)
qed

theorem parse_capital_witness:
  "parse_last_capital ascii_isupper (u ''xAyBz'') [u ''A'', u ''B''] = u ''B''
   \<and> parse_first_capital ascii_isupper (u ''xAyBz'') [u ''A'', u ''B''] = u ''A''
   \<and> parse_last_capital ascii_isupper (u ''xyz'') [u ''A'', u ''B''] = []
   \<and> parse_first_capital ascii_isupper (u ''xyz'') [u ''A'', u ''B''] = []"
proof -
  let ?O = "[u ''A'', u ''B'']"
  note T1 = parse_capital_rightmost_leftmost [of "u ''xAyBz''" ascii_isupper ?O]
  note T2 = parse_capital_rightmost_leftmost [of "u ''xyz''" ascii_isupper ?O]
  have a: "u ''xAyBz'' = [120, 65, 121] @ 66 # [122] \<and> ascii_isupper 66 \<and> [66] \<in> set ?O
        \<and> (\<forall>d\<in>set [122]. \<not> (ascii_isupper d \<and> [d] \<in> set ?O))"
    by (simp add: u_def ascii_isupper_def)
  have b: "u ''xAyBz'' = [120] @ 65 # [121, 66, 122] \<and> ascii_isupper 65 \<and> [65] \<in> set ?O
        \<and> (\<forall>d\<in>set [120]. \<not> (ascii_isupper d \<and> [d] \<in> set ?O))"
    by (simp add: u_def ascii_isupper_def)
  have c: "\<forall>d\<in>set (u ''xyz''). \<not> (ascii_isupper d \<and> [d] \<in> set ?O)"
    by (simp add: u_def ascii_isupper_def)
  have "parse_last_capital ascii_isupper (u ''xAyBz'') ?O = [66]"
    using T1 a by blast
  moreover have "parse_first_capital ascii_isupper (u ''xAyBz'') ?O = [65]"
    using T1 b by blast
  moreover have "parse_last_capital ascii_isupper (u ''xyz'') ?O = []"
    using T2 c by blast
  moreover have "parse_first_capital ascii_isupper (u ''xyz'') ?O = []"
    using T2 c by blast
  ultimately show ?thesis by (simp add: u_def)
qed

section \<open>The two copies of the cascade\<close>

lemma option_loops_same:
  "option_loop_with_choices ieq oc ps t = option_loop ieq oc ps t"
  by (induction ps arbitrary: t) (simp_all add: Let_def split: sum.splits option.splits)

lemma patterns_with_choices_same: "patterns_with_choices oc = patterns oc"
  by (simp add: patterns_with_choices_def patterns_def)

text \<open>
  C10. For every text and every options list, \<open>parse_first_option_with_choices\<close> and
  \<open>parse_first_option\<close> return the same result.
\<close>

theorem with_choices_same:
  "parse_first_option_with_choices ieq text options = parse_first_option ieq text options"
  by (simp add: parse_first_option_with_choices_def parse_first_option_def
      patterns_with_choices_same option_loops_same)

section \<open>Trimming\<close>

lemma dropWhile_clean: "xs = [] \<or> \<not> P (hd xs) \<Longrightarrow> dropWhile P xs = xs"
  by (cases xs) auto

lemma trim_right_clean:
  assumes "ys = [] \<or> \<not> P (hd ys)"
  shows "rev (dropWhile P (rev ys)) = [] \<or> \<not> P (hd (rev (dropWhile P (rev ys))))"
proof (cases "rev (dropWhile P (rev ys)) = []")
  case True then show ?thesis by simp
next
  case False
  have eq: "ys = rev (dropWhile P (rev ys)) @ rev (takeWhile P (rev ys))"
    by (metis rev_append rev_rev_ident takeWhile_dropWhile_id)
  with False have "hd ys = hd (rev (dropWhile P (rev ys)))" by (metis hd_append2)
  moreover from eq False have "ys \<noteq> []" by auto
  ultimately show ?thesis using assms by simp
qed

lemma strip_idem: "strip (strip s) = strip s"
proof -
  have "dropWhile isspace s = [] \<or> \<not> isspace (hd (dropWhile isspace s))"
    by (metis hd_dropWhile)
  then have "dropWhile isspace (strip s) = strip s"
    unfolding strip_def by (intro dropWhile_clean trim_right_clean)
  then show ?thesis by (simp add: strip_def)
qed

lemma option_loop_strip:
  "ps \<noteq> [] \<Longrightarrow> option_loop ieq oc ps (strip t) = option_loop ieq oc ps t"
  by (cases ps) (simp_all add: strip_idem)

text \<open>
  C9. Trimming is absorbed: for every options list and every text \<open>t\<close>,
  \<open>parse_first_option\<close> gives the same result (value or error) on \<open>t\<close> and on \<open>t\<close> with
  the surrounding white space stripped, since the loop strips the text before each
  pattern and stripping is idempotent.
\<close>

theorem trimming_absorbed:
  "parse_first_option ieq t options = parse_first_option ieq (strip t) options"
  unfolding parse_first_option_def Let_def
  by (rule option_loop_strip [symmetric]) (simp add: patterns_def)

section \<open>The cascade on concrete inputs\<close>

text \<open>
  C1. The claim: the result of \<open>parse_first_option\<close> is the empty string or an element
  of the options list. The loop \<^verbatim>\<open>for i in options_concat\<close> runs over the characters of
  the escaped, \<open>|\<close>-joined string and the sets \<^verbatim>\<open>[{options_concat}]\<close> contain the separator:
  on the text U+7B54 U+6848 U+662F \<open>|\<close> ("the answer is |") with the options \<open>A\<close>, \<open>B\<close>
  the first pattern matches and the function returns \<open>|\<close>, which is no option.
\<close>

theorem first_option_returns_separator:
  "parse_first_option ascii_ieq [0x7B54, 0x6848, 0x662F, 124] [u ''A'', u ''B''] = Inr (u ''|'')
   \<and> u ''|'' \<noteq> [] \<and> u ''|'' \<notin> set [u ''A'', u ''B'']"
  by code_simp

text \<open>
  C4. The claim: on U+53EA U+6709 U+9009 U+9879 \<open>X\<close> U+662F U+5BF9 ("only option X is
  right") with the options \<open>A\<close>, \<open>B\<close>, \<open>C\<close>, \<open>D\<close> the result is \<open>X\<close>. The pattern for this
  phrasing is the fifteenth literal of the list; the fourteenth lacks its comma, the two
  are one pattern (fifty patterns from fifty-one literals), and nothing is found for
  \<open>X = A\<close>, where the fifteenth literal on its own finds \<open>A\<close>.
\<close>

theorem only_option_is_right_not_found:
  "parse_first_option ascii_ieq [0x53EA, 0x6709, 0x9009, 0x9879, 65, 0x662F, 0x5BF9]
      [u ''A'', u ''B'', u ''C'', u ''D''] = Inr []
   \<and> option_loop ascii_ieq (u ''A|B|C|D'')
        [[0x53EA, 0x6709, 0x9009] @ pat ''?'' @ [0x9879] @ pat ''?/s?(['' @ u ''A|B|C|D''
           @ pat ''])/s?'' @ [0x662F] @ pat ''?'' @ [0x5BF9]]
        [0x53EA, 0x6709, 0x9009, 0x9879, 65, 0x662F, 0x5BF9] = Inr (u ''A'')
   \<and> length (patterns (u ''A|B|C|D'')) = 50"
  by code_simp

text \<open>
  C8. The two cushion patterns are not among the patterns that the loop scans, and for
  the options \<open>A\<close>, \<open>B\<close>, \<open>C\<close>, \<open>D\<close> the text that is the bare label \<open>A\<close> gives the
  empty string; the same loop over the cushion patterns would give \<open>A\<close>.
\<close>

theorem bare_label_not_found:
  "parse_first_option ascii_ieq (u ''A'') [u ''A'', u ''B'', u ''C'', u ''D''] = Inr []
   \<and> cushion_patterns (process_options [u ''A'', u ''B'', u ''C'', u ''D'']) ! 0
        \<notin> set (patterns (process_options [u ''A'', u ''B'', u ''C'', u ''D'']))
   \<and> cushion_patterns (process_options [u ''A'', u ''B'', u ''C'', u ''D'']) ! 1
        \<notin> set (patterns (process_options [u ''A'', u ''B'', u ''C'', u ''D'']))
   \<and> option_loop ascii_ieq (u ''A|B|C|D'') (cushion_patterns (u ''A|B|C|D'')) (u ''A'') = Inr (u ''A'')"
  by code_simp

section \<open>Compiling the patterns for arbitrary options\<close>

text \<open>
  \<open>re.escape\<close> does its work: the tokenizer reads the escaped labels as one token per
  character, separated by \<open>|\<close>, and inside a set these tokens are the characters of the
  labels and the separator, as members. A set with no member at all does not end at its
  closing bracket.
\<close>

lemma tokenize_Ch: "c \<noteq> 92 \<Longrightarrow> tokenize (c # cs) = tcons (Ch c) (tokenize cs)"
  by (cases cs) (simp_all add: tcons_def)

lemma tokenize_Esc: "tokenize (92 # d # cs) = tcons (Esc d) (tokenize cs)"
  by (simp add: tcons_def)

lemma special_92: "special 92"
  by (simp add: special_def)

lemma tokenize_escape: "tokenize (re_escape s @ ys) = tapp (map etok s) (tokenize ys)"
proof (induction s)
  case Nil
  then show ?case by (simp add: re_escape_def tapp_def split: sum.splits)
next
  case (Cons c s)
  have e: "re_escape (c # s) = (if special c then [92, c] else [c]) @ re_escape s"
    by (simp add: re_escape_def)
  show ?case
  proof (cases "special c")
    case True
    then show ?thesis using Cons
      by (simp add: e tokenize_Esc etok_def tcons_def tapp_def split: sum.splits)
  next
    case False
    then have "c \<noteq> 92" using special_92 by auto
    then show ?thesis using Cons False
      by (simp add: e tokenize_Ch etok_def tcons_def tapp_def split: sum.splits)
  qed
qed

lemma tokenize_options: "tokenize (process_options os @ ys) = tapp (jtoks os) (tokenize ys)"
proof (induction os rule: jtoks.induct)
  case 1
  then show ?case by (simp add: process_options_def tapp_def split: sum.splits)
next
  case (2 x)
  then show ?case by (simp add: process_options_def tokenize_escape)
next
  case (3 x y ys)
  have "tokenize (process_options (x # y # ys) @ zs)
      = tapp (map etok x) (tokenize (124 # (process_options (y # ys) @ zs)))" for zs
    by (simp add: process_options_def tokenize_escape)
  then show ?case using 3
    by (simp add: tokenize_Ch tcons_def tapp_def split: sum.splits)
qed

lemma plain_etok: "plain (etok c)"
  by (simp add: plain_def etok_def)

lemma plain_bar: "plain (Ch 124)"
  by (simp add: plain_def)

lemma plain_jtoks: "\<forall>t\<in>set (jtoks os). plain t"
  by (induction os rule: jtoks.induct) (auto simp: plain_etok plain_bar)

lemma tchar_etok: "tchar (etok c) = c"
  by (simp add: tchar_def etok_def)

lemma tchar_Ch: "tchar (Ch c) = c"
  by (simp add: tchar_def)

lemma map_tchar_etok: "map (tchar \<circ> etok) x = x"
  by (induction x) (simp_all add: tchar_etok)

lemma tchar_jtoks: "map tchar (jtoks os) = join [124] os"
  by (induction os rule: jtoks.induct) (simp_all add: map_tchar_etok tchar_Ch)

lemma re_escape_Nil: "re_escape x = [] \<longleftrightarrow> x = []"
  by (cases x) (simp_all add: re_escape_def)

lemma jtoks_Nil: "jtoks os = [] \<longleftrightarrow> process_options os = []"
  by (induction os rule: jtoks.induct) (simp_all add: process_options_def re_escape_Nil)

lemma special_cases: "special c \<longleftrightarrow> c \<in> {9, 10, 11, 12, 13, 32, 35, 36, 38, 40, 41, 42, 43, 45, 46, 63,
                          91, 92, 93, 94, 123, 124, 125, 126}"
  by (simp add: special_def)

lemma plain_class_item: "plain t \<Longrightarrow> class_item t = Inr (CLit (tchar t))"
  by (cases t) (auto simp: plain_def tchar_def special_cases ascii_alnum_def)

lemma plain_not_close: "plain t \<Longrightarrow> t \<noteq> Ch 93"
  by (auto simp: plain_def special_cases)

lemma next_is_plain:
  "\<forall>t\<in>set ts. plain t \<Longrightarrow> special d \<Longrightarrow> d \<noteq> 124 \<Longrightarrow> e \<noteq> d \<Longrightarrow> next_is d (ts @ Ch e # rest) = False"
  by (cases ts) (auto simp: next_is_def plain_def split: token.splits)

lemma parse_set_plain:
  "\<forall>t\<in>set ts. plain t \<Longrightarrow> acc \<noteq> [] \<or> ts \<noteq> [] \<Longrightarrow>
   parse_set g st alts cur acc (ts @ Ch 93 # rest)
     = parse g st alts (cur @ [Atom (In (acc @ map (\<lambda>t. CLit (tchar t)) ts))]) rest"
proof (induction ts arbitrary: acc)
  case Nil
  then show ?case by simp
next
  case (Cons t ts)
  have n: "next_is 45 (ts @ Ch 93 # rest) = False"
    using Cons.prems by (intro next_is_plain) (auto simp: special_cases)
  have "parse_set g st alts cur acc ((t # ts) @ Ch 93 # rest)
      = parse_set g st alts cur (acc @ [CLit (tchar t)]) (ts @ Ch 93 # rest)"
    using Cons.prems n by (simp add: plain_class_item plain_not_close)
  also have "\<dots> = parse g st alts (cur @ [Atom (In ((acc @ [CLit (tchar t)]) @ map (\<lambda>t. CLit (tchar t)) ts))]) rest"
    using Cons.prems by (intro Cons.IH) auto
  finally show ?case by simp
qed

lemma parse_set_options:
  "process_options os \<noteq> [] \<Longrightarrow>
   parse_set g st alts cur [] (jtoks os @ Ch 93 # rest)
     = parse g st alts (cur @ [Atom (In (map CLit (join [124] os)))]) rest"
  using parse_set_plain [of "jtoks os" "[]" g st alts cur rest] plain_jtoks [of os]
  by (simp add: jtoks_Nil tchar_jtoks [symmetric] comp_def)

lemma next_is_jtoks:
  "special d \<Longrightarrow> d \<noteq> 124 \<Longrightarrow> e \<noteq> d \<Longrightarrow> next_is d (jtoks os @ Ch e # rest) = False"
  using next_is_plain [of "jtoks os" d e rest] plain_jtoks [of os] by simp

lemma next_is_Cons: "next_is d (Ch e # ts) = (e = d)" "next_is d (Esc e # ts) = False" "next_is d [] = False"
  by (simp_all add: next_is_def)

lemma tapp_simps: "tapp ts (Inr ts') = Inr (ts @ ts')" "tapp ts (Inl e) = Inl e"
  "tcons t (Inr ts') = Inr (t # ts')" "tcons t (Inl e) = Inl e"
  by (simp_all add: tapp_def tcons_def)

lemmas compile_simps = pat_def tokenize_Ch tokenize_Esc tokenize_options tapp_simps
  re_compile_def parse_set_options next_is_jtoks next_is_Cons escape_atom_def ascii_alnum_def
  apply_quant_def quant_of_def close_group_def special_cases

lemma patterns_compile:
  "process_options os \<noteq> [] \<Longrightarrow>
   list_all (\<lambda>p. \<exists>c. re_compile p = Inr c \<and> 1 \<le> ngroups c) (patterns (process_options os))"
  unfolding patterns_def
  by (simp add: compile_simps del: tokenize.simps(2,3))

lemma empty_text_no_match:
  "process_options os \<noteq> [] \<Longrightarrow>
   list_all (\<lambda>p. re_search ieq True p [] = Inr None) (patterns (process_options os))"
  unfolding patterns_def
  by (simp add: compile_simps re_search_def del: tokenize.simps(2,3))

lemmas isspace_num = isspace_def [of "numeral n" for n]
lemmas match_simps = lit_eq_def counts_def isspace_num u_def

lemma map_if: "map f (if b then xs else ys) = (if b then map f xs else map f ys)"
  by simp
lemma length_if: "length (if b then xs else ys) = (if b then length xs else length ys)"
  by simp
lemma counts_if: "counts q g (if b then m else n) = (if b then counts q g m else counts q g n)"
  by simp
lemma concat_if: "concat (if b then xs else ys) = (if b then concat xs else concat ys)"
  by simp
lemmas if_push = concat_if map_if length_if counts_if

section \<open>The result of the cascade\<close>

text \<open>
  Every pattern of the cascade compiles and has a group 1 for every options list whose
  \<open>options_concat\<close> is not empty, so \<open>parse_first_option\<close> raises nothing there, on any
  text, and no pattern leaves the modelled fragment. What it returns is the empty string
  or one character of \<open>options_concat\<close>.
\<close>

lemma search_from_mgroups:
  "search_from eq da g r i t = Some m \<Longrightarrow> mgroups m = g"
  by (induction t arbitrary: i) (auto split: list.splits)

lemma find_in_set: "find P xs = Some x \<Longrightarrow> x \<in> set xs"
  by (auto simp: find_Some_iff)

lemma option_loop_step:
  assumes "re_compile p = Inr c" and "1 \<le> ngroups c"
  shows "option_loop ieq oc (p # ps) t = option_loop ieq oc ps (strip t)
       \<or> (\<exists>i\<in>set oc. option_loop ieq oc (p # ps) t = Inr [i])"
proof (cases "search_from (lit_eq ieq (ignorecase c)) True (ngroups c) (body c) 0 (strip t)")
  case None
  with assms show ?thesis by (simp add: re_search_def)
next
  case (Some m)
  then have "mgroups m = ngroups c" by (rule search_from_mgroups)
  with assms(2) have g: "group m 1 = Inr (map_of (caps m) 1)" by (simp add: group_def)
  define out where "out = (if map_of (caps m) 1 \<noteq> None \<and> map_of (caps m) 1 \<noteq> Some []
                           then the (map_of (caps m) 1) else whole m)"
  have l: "option_loop ieq oc (p # ps) t
      = (case find (\<lambda>i. i \<in> set out) oc of Some i \<Rightarrow> Inr [i]
         | None \<Rightarrow> option_loop ieq oc ps (strip t))"
    using assms(1) Some g by (simp add: re_search_def Let_def out_def)
  show ?thesis
  proof (cases "find (\<lambda>i. i \<in> set out) oc")
    case None
    with l show ?thesis by simp
  next
    case (Some i)
    then have "i \<in> set oc" by (rule find_in_set)
    with l Some show ?thesis by simp
  qed
qed

lemma option_loop_result:
  "list_all (\<lambda>p. \<exists>c. re_compile p = Inr c \<and> 1 \<le> ngroups c) ps \<Longrightarrow>
   \<exists>r. option_loop ieq oc ps t = Inr r \<and> (r = [] \<or> (\<exists>i\<in>set oc. r = [i]))"
proof (induction ps arbitrary: t)
  case Nil
  then show ?case by simp
next
  case (Cons p ps)
  then obtain c where c: "re_compile p = Inr c" "1 \<le> ngroups c" by auto
  from Cons have "\<exists>r. option_loop ieq oc ps (strip t) = Inr r \<and> (r = [] \<or> (\<exists>i\<in>set oc. r = [i]))"
    by simp
  with option_loop_step [OF c, of ieq oc ps t] show ?case by auto
qed

lemma parse_first_option_result:
  "process_options os \<noteq> [] \<Longrightarrow>
   \<exists>r. parse_first_option ieq t os = Inr r
       \<and> (r = [] \<or> (\<exists>i\<in>set (process_options os). r = [i]))"
  unfolding parse_first_option_def Let_def
  by (rule option_loop_result) (rule patterns_compile)

section \<open>The text "The answer is L"\<close>

lemma answer_is_before:
  "process_options os \<noteq> [] \<Longrightarrow> \<not> isspace c \<Longrightarrow>
   list_all (\<lambda>p. re_search ieq True p (u ''The answer is '' @ [c]) = Inr None)
     (take 26 (patterns (process_options os)))"
  unfolding patterns_def
  apply (simp add: compile_simps re_search_def del: tokenize.simps(2,3) search_from.simps)
  apply (simp add: match_simps if_push split del: if_split cong: if_cong)
  done

lemma answer_is_hit:
  "process_options os \<noteq> [] \<Longrightarrow> \<not> isspace c \<Longrightarrow> c \<in> set (join [124] os) \<Longrightarrow>
   re_search ieq True (patterns (process_options os) ! 26) (u ''The answer is '' @ [c])
     = Inr (Some (Match 1 [32, c] [(1, [c])]))"
  unfolding patterns_def
  apply (simp add: compile_simps re_search_def del: tokenize.simps(2,3) search_from.simps)
  apply (simp add: match_simps if_push split del: if_split cong: if_cong)
  done

lemma option_loop_skip:
  "list_all (\<lambda>p. re_search ieq True p t = Inr None) qs \<Longrightarrow> strip t = t \<Longrightarrow>
   option_loop ieq oc (qs @ rest) t = option_loop ieq oc rest t"
  by (induction qs) simp_all

lemma option_loop_hit:
  "re_search ieq True p t = Inr (Some m) \<Longrightarrow> strip t = t \<Longrightarrow> group m 1 = Inr (Some g1) \<Longrightarrow>
   g1 \<noteq> [] \<Longrightarrow> find (\<lambda>i. i \<in> set g1) oc = Some i \<Longrightarrow>
   option_loop ieq oc (p # rest) t = Inr [i]"
  by simp

lemma find_single: "c \<in> set oc \<Longrightarrow> find (\<lambda>i. i \<in> set [c]) oc = Some c"
  by (induction oc) auto

lemma set_join: "x \<in> set xs \<Longrightarrow> set x \<subseteq> set (join sep xs)"
  by (induction sep xs rule: join.induct) auto

lemma set_re_escape: "set x \<subseteq> set (re_escape x)"
  by (induction x) (auto simp: re_escape_def)

lemma label_char_in_options:
  assumes "[c] \<in> set os"
  shows "c \<in> set (process_options os)" and "c \<in> set (join [124] os)"
proof -
  from assms have "re_escape [c] \<in> set (map re_escape os)" by force
  then have "set (re_escape [c]) \<subseteq> set (process_options os)"
    unfolding process_options_def by (rule set_join)
  moreover have "c \<in> set (re_escape [c])" using set_re_escape [of "[c]"] by simp
  ultimately show "c \<in> set (process_options os)" by blast
  from assms show "c \<in> set (join [124] os)" using set_join [of "[c]" os "[124]"] by simp
qed

lemma strip_clean:
  "t \<noteq> [] \<Longrightarrow> \<not> isspace (hd t) \<Longrightarrow> \<not> isspace (last t) \<Longrightarrow> strip t = t"
proof -
  assume a: "t \<noteq> []" "\<not> isspace (hd t)" "\<not> isspace (last t)"
  then have 1: "dropWhile isspace t = t" by (cases t) auto
  from a have "rev t \<noteq> []" "\<not> isspace (hd (rev t))" by (simp_all add: hd_rev)
  then have "dropWhile isspace (rev t) = rev t" by (cases "rev t") auto
  with 1 show ?thesis by (simp add: strip_def)
qed

lemma length_patterns: "length (patterns oc) = 50"
  by (simp add: patterns_def)

text \<open>
  A label of one character other than white space is not affected: the loop over the
  characters of \<open>options_concat\<close> and a loop over the labels then pick the same
  character. On "The answer is " followed by such a label the first twenty-six patterns
  find nothing and the twenty-seventh (a label after white space at the end of the text)
  captures the label, for every options list that contains it.
\<close>

lemma answer_is_single_character:
  assumes "[c] \<in> set options" and "\<not> isspace c"
  shows "parse_first_option ieq (u ''The answer is '' @ [c]) options = Inr [c]"
proof -
  let ?oc = "process_options options"
  let ?t = "u ''The answer is '' @ [c]"
  let ?ps = "patterns ?oc"
  have c_in: "c \<in> set ?oc" "c \<in> set (join [124] options)"
    using assms(1) by (rule label_char_in_options)+
  then have ne: "?oc \<noteq> []" by auto
  have st: "strip ?t = ?t"
    using assms(2) by (intro strip_clean) (simp_all add: u_def isspace_def)
  have split: "?ps = take 26 ?ps @ ?ps ! 26 # drop 27 ?ps"
    using id_take_nth_drop [of 26 ?ps] by (simp add: length_patterns)
  have "option_loop ieq ?oc ?ps ?t = option_loop ieq ?oc (take 26 ?ps @ ?ps ! 26 # drop 27 ?ps) ?t"
    using split by simp
  also have "\<dots> = option_loop ieq ?oc (?ps ! 26 # drop 27 ?ps) ?t"
    using answer_is_before [OF ne assms(2)] st by (rule option_loop_skip)
  also have "\<dots> = Inr [c]"
  proof (rule option_loop_hit)
    show "re_search ieq True (?ps ! 26) ?t = Inr (Some (Match 1 [32, c] [(1, [c])]))"
      using ne assms(2) c_in(2) by (rule answer_is_hit)
    show "strip ?t = ?t" by (rule st)
    show "group (Match 1 [32, c] [(1, [c])]) 1 = Inr (Some [c])" by (simp add: group_def)
    show "[c] \<noteq> []" by simp
    show "find (\<lambda>i. i \<in> set [c]) ?oc = Some c" using c_in(1) by (rule find_single)
  qed
  finally show ?thesis by (simp add: parse_first_option_def)
qed

text \<open>
  C3. The claim: for every list of distinct labels and every label \<open>L\<close> in it,
  \<open>parse_first_option\<close> returns \<open>L\<close> on "The answer is " followed by \<open>L\<close>. For the labels
  \<open>Yes\<close> and \<open>No\<close> and \<open>L = Yes\<close> the function returns \<open>Y\<close>, which is neither \<open>L\<close> nor
  any label of the list: the sets \<^verbatim>\<open>[{options_concat}]\<close> capture one character and the loop
  \<^verbatim>\<open>for i in options_concat\<close> returns one character of the joined string, not a label.
  \<open>parse_bracketed_answer\<close>, which puts the same \<open>options_concat\<close> into an alternation,
  returns the label whole.
\<close>

theorem answer_is_long_label_truncated:
  "distinct [u ''Yes'', u ''No''] \<and> u ''Yes'' \<in> set [u ''Yes'', u ''No'']
   \<and> parse_first_option ascii_ieq (u ''The answer is '' @ u ''Yes'') [u ''Yes'', u ''No''] = Inr (u ''Y'')
   \<and> u ''Y'' \<noteq> u ''Yes'' \<and> u ''Y'' \<noteq> [] \<and> u ''Y'' \<notin> set [u ''Yes'', u ''No'']
   \<and> parse_bracketed_answer ascii_ieq (u ''<Yes>'') [u ''Yes'', u ''No''] = Inr (u ''Yes'')"
  by code_simp

section \<open>The first bracketed label\<close>

lemma parse_etok:
  "parse g st alts cur (etok c # ts) = parse g st alts (cur @ [Atom (Lit c)]) ts"
  by (auto simp: etok_def special_cases escape_atom_def ascii_alnum_def)

lemma parse_label:
  "parse g st alts cur (map etok x @ ts) = parse g st alts (cur @ map (\<lambda>c. Atom (Lit c)) x) ts"
  by (induction x arbitrary: cur) (simp_all add: parse_etok)

lemma parse_options:
  "os \<noteq> [] \<Longrightarrow> parse g st alts [] (jtoks os @ ts)
     = parse g st (alts @ map lits (butlast os)) (map (\<lambda>c. Atom (Lit c)) (last os)) ts"
proof (induction os arbitrary: alts rule: jtoks.induct)
  case 1
  then show ?case by simp
next
  case (2 x)
  then show ?case using parse_label [of g st alts "[]" x ts] by simp
next
  case (3 x y ys)
  have "parse g st alts [] (jtoks (x # y # ys) @ ts)
      = parse g st alts (map (\<lambda>c. Atom (Lit c)) x) (Ch 124 # jtoks (y # ys) @ ts)"
    using parse_label [of g st alts "[]" x "Ch 124 # jtoks (y # ys) @ ts"] by simp
  also have "\<dots> = parse g st (alts @ [lits x]) [] (jtoks (y # ys) @ ts)"
    by (simp add: lits_def)
  also have "\<dots> = parse g st ((alts @ [lits x]) @ map lits (butlast (y # ys)))
        (map (\<lambda>c. Atom (Lit c)) (last (y # ys))) ts"
    by (rule 3) simp
  finally show ?case by simp
qed

lemma next_is_jtoks_63: "next_is 63 (jtoks os @ Ch 41 # rest) = False"
  by (rule next_is_jtoks) (simp_all add: special_cases)

lemma compile_bracket:
  "re_compile (pat ''<('' @ process_options os @ pat '')>'') = Inr (Compiled False 1 (bracket_re os))"
proof (cases "os = []")
  case True
  then show ?thesis
    by (simp add: compile_simps process_options_def bracket_re_def labels_def lits_def)
next
  case False
  have "map lits (butlast os) @ [lits (last os)] = map lits os"
    using False by (metis append_butlast_last_id list.simps(8,9) map_append)
  then show ?thesis using False
    by (simp add: compile_simps next_is_jtoks_63 parse_options bracket_re_def labels_def
          lits_def [symmetric] del: tokenize.simps(2,3))
qed

lemma rmatch_lits:
  "rmatch (lit_eq ieq False) da (lits X) (i, rest, c)
     = (if take (length X) rest = X then [(i + length X, drop (length X) rest, c)] else [])"
proof (induction X arbitrary: i rest)
  case Nil
  then show ?case by (simp add: lits_def)
next
  case (Cons x X)
  have l: "lits (x # X) = Seq (Atom (Lit x)) (lits X)" by (simp add: lits_def)
  show ?case
  proof (cases rest)
    case Nil
    then show ?thesis by (simp add: l)
  next
    case (Cons y ys)
    then show ?thesis using Cons.IH [of "Suc i" ys] by (auto simp: l lit_eq_def)
  qed
qed

lemma rmatch_mk_alt:
  "rs \<noteq> [] \<Longrightarrow> rmatch eq da (mk_alt rs) s = concat (map (\<lambda>r. rmatch eq da r s) rs)"
  by (induction rs rule: mk_alt.induct) simp_all

lemma bracketed_iff: "bracketed t X \<longleftrightarrow> (\<exists>suf. t = 60 # X @ 62 # suf)"
proof
  assume "bracketed t X"
  then have "t = (60 # X @ [62]) @ drop (length X + 2) t"
    unfolding bracketed_def by (metis append_take_drop_id)
  then show "\<exists>suf. t = 60 # X @ 62 # suf" by auto
next
  assume "\<exists>suf. t = 60 # X @ 62 # suf"
  then show "bracketed t X" by (auto simp: bracketed_def)
qed

lemma concat_map_concat:
  "concat (map k (concat (map f L))) = concat (map (\<lambda>X. concat (map k (f X))) L)"
  by (induction L) simp_all

lemma rmatch_close:
  "concat (map (\<lambda>s. rmatch (lit_eq ieq False) da (Seq (Atom (Lit 62)) Empty)
                       (case s of (j, rest', c') \<Rightarrow> (j, rest', (1, take (j - Suc i) xs) # c')))
            (rmatch (lit_eq ieq False) da (lits X) (Suc i, xs, [])))
     = (if bracketed (60 # xs) X
        then [(i + length X + 2, drop (length X + 1) xs, [(1, X)])] else [])"
proof (cases "take (length X) xs = X")
  case False
  then have "\<not> bracketed (60 # xs) X"
    by (auto simp: bracketed_def dest: arg_cong [where f = "take (length X)"])
  with False show ?thesis by (simp add: rmatch_lits)
next
  case True
  show ?thesis
  proof (cases "drop (length X) xs")
    case Nil
    then have "length xs \<le> length X" by simp
    then have "\<not> bracketed (60 # xs) X"
      by (auto simp: bracketed_def dest: arg_cong [where f = length])
    with True Nil show ?thesis by (simp add: rmatch_lits)
  next
    case (Cons y ys)
    then have xs: "xs = X @ y # ys" using True by (metis append_take_drop_id)
    have b: "bracketed (60 # xs) X \<longleftrightarrow> y = 62" by (simp add: bracketed_def xs)
    have d: "drop (length X + 1) xs = ys" by (simp add: xs)
    show ?thesis using True Cons b d
      by (simp add: rmatch_lits lit_eq_def)
  qed
qed

lemma rmatch_group_labels:
  assumes "L \<noteq> []"
  shows "rmatch (lit_eq ieq False) da (Seq (Group 1 (mk_alt (map lits L))) (Seq (Atom (Lit 62)) Empty)) (Suc i, xs, [])
     = concat (map (\<lambda>X. if bracketed (60 # xs) X
                          then [(i + length X + 2, drop (length X + 1) xs, [(1, X)])] else []) L)"
proof -
  let ?eq = "lit_eq ieq False"
  let ?T = "Seq (Atom (Lit 62)) Empty"
  let ?k = "\<lambda>s. rmatch ?eq da ?T (case s of (j, rest', c') \<Rightarrow> (j, rest', (1, take (j - Suc i) xs) # c'))"
  let ?f = "\<lambda>X. rmatch ?eq da (lits X) (Suc i, xs, [])"
  have A: "rmatch ?eq da (mk_alt (map lits L)) (Suc i, xs, []) = concat (map ?f L)"
    using assms by (simp add: rmatch_mk_alt comp_def)
  have "rmatch ?eq da (Seq (Group 1 (mk_alt (map lits L))) ?T) (Suc i, xs, [])
      = concat (map ?k (concat (map ?f L)))"
    by (simp only: rmatch.simps A map_map comp_def)
  also have "\<dots> = concat (map (\<lambda>X. concat (map ?k (?f X))) L)"
    by (rule concat_map_concat)
  also have "\<dots> = concat (map (\<lambda>X. if bracketed (60 # xs) X
                          then [(i + length X + 2, drop (length X + 1) xs, [(1, X)])] else []) L)"
    by (simp only: rmatch_close)
  finally show ?thesis .
qed

lemma case_concat_find:
  "(case concat (map (\<lambda>X. if P X then [r X] else []) L) of [] \<Rightarrow> a | h # _ \<Rightarrow> b h)
     = (case find P L of None \<Rightarrow> a | Some X \<Rightarrow> b (r X))"
  by (induction L) simp_all

lemma rmatch_bracket_re:
  "rmatch (lit_eq ieq False) da (bracket_re os) (i, x # xs, [])
     = concat (map (\<lambda>X. if bracketed (x # xs) X
                          then [(i + length X + 2, drop (length X + 1) xs, [(1, X)])] else []) (labels os))"
proof (cases "x = 60")
  case True
  have "labels os \<noteq> []" by (simp add: labels_def)
  then show ?thesis using True rmatch_group_labels [of "labels os" ieq da i xs]
    by (simp add: bracket_re_def lit_eq_def del: rmatch.simps(6))
       (simp add: lit_eq_def)
next
  case False
  then have "\<not> bracketed (x # xs) X" for X by (simp add: bracketed_def)
  with False show ?thesis by (simp add: bracket_re_def lit_eq_def)
qed

lemma search_bracket_re:
  "search_from (lit_eq ieq False) da (Suc 0) (bracket_re os) i t
     = map_option (\<lambda>X. Match 1 (60 # X @ [62]) [(1, X)]) (bracket_scan (labels os) t)"
proof (induction t arbitrary: i)
  case Nil
  then show ?case by (simp add: bracket_re_def)
next
  case (Cons x xs)
  show ?case
  proof (cases "find (bracketed (x # xs)) (labels os)")
    case None
    then show ?thesis using Cons [of "Suc i"]
      by (simp add: rmatch_bracket_re case_concat_find)
  next
    case (Some X)
    then have "bracketed (x # xs) X" by (auto simp: find_Some_iff)
    then have "take (Suc (Suc (length X))) (x # xs) = 60 # X @ [62]" by (simp add: bracketed_def)
    then show ?thesis using Some
      by (simp add: rmatch_bracket_re case_concat_find)
  qed
qed

lemma find_bracketed_None:
  "find (bracketed t) L = None \<longleftrightarrow> (\<forall>X\<in>set L. \<forall>suf. t \<noteq> 60 # X @ 62 # suf)"
  by (auto simp: find_None_iff bracketed_iff)

lemma bracket_scan_None:
  "bracket_scan L t = None \<longleftrightarrow> (\<forall>pre X suf. X \<in> set L \<longrightarrow> t \<noteq> pre @ 60 # X @ 62 # suf)"
proof (induction t)
  case Nil
  then show ?case by simp
next
  case (Cons x xs)
  have "(\<forall>pre X suf. X \<in> set L \<longrightarrow> x # xs \<noteq> pre @ 60 # X @ 62 # suf)
      \<longleftrightarrow> (\<forall>X\<in>set L. \<forall>suf. x # xs \<noteq> 60 # X @ 62 # suf)
          \<and> (\<forall>pre X suf. X \<in> set L \<longrightarrow> xs \<noteq> pre @ 60 # X @ 62 # suf)"
    (is "?A \<longleftrightarrow> ?B \<and> ?C")
  proof
    assume a: ?A
    have ?B using a [rule_format, of _ "[]"] by auto
    moreover have ?C
    proof (intro allI impI)
      fix pre X suf assume "X \<in> set L"
      then have "x # xs \<noteq> (x # pre) @ 60 # X @ 62 # suf" using a by blast
      then show "xs \<noteq> pre @ 60 # X @ 62 # suf" by simp
    qed
    ultimately show "?B \<and> ?C" ..
  next
    assume bc: "?B \<and> ?C"
    show ?A
    proof (intro allI impI)
      fix pre X suf assume X: "X \<in> set L"
      show "x # xs \<noteq> pre @ 60 # X @ 62 # suf"
      proof (cases pre)
        case Nil
        then show ?thesis using bc X by auto
      next
        case (Cons p pre')
        then show ?thesis using bc X by auto
      qed
    qed
  qed
  moreover have "bracket_scan L (x # xs) = None
      \<longleftrightarrow> find (bracketed (x # xs)) L = None \<and> bracket_scan L xs = None"
    by (simp split: option.splits)
  ultimately show ?case using Cons by (simp only: find_bracketed_None)
qed

lemma bracket_scan_Some:
  "bracket_scan L t = Some X \<Longrightarrow>
   X \<in> set L \<and> (\<exists>pre suf. t = pre @ 60 # X @ 62 # suf
      \<and> (\<forall>pre' Y suf'. Y \<in> set L \<and> t = pre' @ 60 # Y @ 62 # suf' \<longrightarrow> length pre \<le> length pre'))"
proof (induction t)
  case Nil
  then show ?case by simp
next
  case (Cons x xs)
  show ?case
  proof (cases "find (bracketed (x # xs)) L")
    case (Some Y)
    with Cons.prems have "Y = X" by simp
    with Some have "X \<in> set L" "bracketed (x # xs) X"
      by (auto simp: find_Some_iff)
    then obtain suf where "x # xs = [] @ 60 # X @ 62 # suf" by (auto simp: bracketed_iff)
    then have "x # xs = [] @ 60 # X @ 62 # suf
       \<and> (\<forall>pre' Y suf'. Y \<in> set L \<and> x # xs = pre' @ 60 # Y @ 62 # suf' \<longrightarrow> length ([]::ustr) \<le> length pre')"
      by simp
    with \<open>X \<in> set L\<close> show ?thesis by blast
  next
    case None
    with Cons.prems have "bracket_scan L xs = Some X" by simp
    then obtain pre suf where X: "X \<in> set L" and t: "xs = pre @ 60 # X @ 62 # suf"
      and m: "\<forall>pre' Y suf'. Y \<in> set L \<and> xs = pre' @ 60 # Y @ 62 # suf' \<longrightarrow> length pre \<le> length pre'"
      using Cons.IH by blast
    have n: "\<forall>Y\<in>set L. \<forall>suf. x # xs \<noteq> 60 # Y @ 62 # suf"
      using None by (simp only: find_bracketed_None)
    have "\<forall>pre' Y suf'. Y \<in> set L \<and> x # xs = pre' @ 60 # Y @ 62 # suf' \<longrightarrow> length (x # pre) \<le> length pre'"
    proof (intro allI impI)
      fix pre' Y suf' assume h: "Y \<in> set L \<and> x # xs = pre' @ 60 # Y @ 62 # suf'"
      show "length (x # pre) \<le> length pre'"
      proof (cases pre')
        case Nil
        then show ?thesis using h n by auto
      next
        case (Cons p q)
        with h have "xs = q @ 60 # Y @ 62 # suf'" by simp
        with h m have "length pre \<le> length q" by blast
        then show ?thesis using Cons by simp
      qed
    qed
    moreover have "x # xs = (x # pre) @ 60 # X @ 62 # suf" using t by simp
    ultimately show ?thesis using X by blast
  qed
qed

lemma parse_bracketed_answer_scan:
  "parse_bracketed_answer ieq text os
     = (case bracket_scan (labels os) text of None \<Rightarrow> Inr no_valid_option | Some X \<Rightarrow> Inr X)"
  by (simp add: parse_bracketed_answer_def re_search_def compile_bracket search_bracket_re
        group_def split: option.splits)

text \<open>
  C6. For every non-empty options list and every text: when no label of the list occurs
  in the text between \<open><\<close> (60) and \<open>>\<close> (62), \<open>parse_bracketed_answer\<close> returns the
  sentinel "No valid option found", which is not the empty string; when one does, it
  returns a label of the list whose bracketed occurrence starts leftmost in the text,
  no bracketed label of the list starting before it.
\<close>

theorem bracketed_answer_leftmost:
  assumes "options \<noteq> []"
  shows "((\<forall>pre X suf. X \<in> set options \<longrightarrow> text \<noteq> pre @ 60 # X @ 62 # suf)
            \<longrightarrow> parse_bracketed_answer ieq text options = Inr no_valid_option)
       \<and> ((\<exists>pre X suf. X \<in> set options \<and> text = pre @ 60 # X @ 62 # suf)
            \<longrightarrow> (\<exists>pre X suf. parse_bracketed_answer ieq text options = Inr X
                    \<and> X \<in> set options \<and> text = pre @ 60 # X @ 62 # suf
                    \<and> (\<forall>pre' Y suf'. Y \<in> set options \<and> text = pre' @ 60 # Y @ 62 # suf'
                          \<longrightarrow> length pre \<le> length pre')))
       \<and> no_valid_option \<noteq> []"
proof (intro conjI impI)
  have L: "labels options = options" using assms by (simp add: labels_def)
  {
    assume "\<forall>pre X suf. X \<in> set options \<longrightarrow> text \<noteq> pre @ 60 # X @ 62 # suf"
    then have "bracket_scan options text = None" by (simp add: bracket_scan_None)
    then show "parse_bracketed_answer ieq text options = Inr no_valid_option"
      by (simp add: parse_bracketed_answer_scan L)
  }
  {
    assume "\<exists>pre X suf. X \<in> set options \<and> text = pre @ 60 # X @ 62 # suf"
    then have "bracket_scan options text \<noteq> None" by (auto simp: bracket_scan_None)
    then obtain X where X: "bracket_scan options text = Some X" by auto
    then have "parse_bracketed_answer ieq text options = Inr X"
      by (simp add: parse_bracketed_answer_scan L)
    with bracket_scan_Some [OF X]
    show "\<exists>pre X suf. parse_bracketed_answer ieq text options = Inr X
                    \<and> X \<in> set options \<and> text = pre @ 60 # X @ 62 # suf
                    \<and> (\<forall>pre' Y suf'. Y \<in> set options \<and> text = pre' @ 60 # Y @ 62 # suf'
                          \<longrightarrow> length pre \<le> length pre')"
      by blast
  }
  show "no_valid_option \<noteq> []" by (simp add: no_valid_option_def u_def)
qed

theorem bracketed_answer_witness:
  "[u ''A'', u ''B''] \<noteq> []
   \<and> parse_bracketed_answer ascii_ieq (u ''<A>'') [u ''A'', u ''B''] = Inr (u ''A'')
   \<and> parse_bracketed_answer ascii_ieq (u ''no brackets here'') [u ''A'', u ''B''] = Inr no_valid_option"
proof -
  let ?O = "[u ''A'', u ''B'']"
  have ne: "?O \<noteq> []" by simp
  note T1 = bracketed_answer_leftmost [OF ne, of "u ''<A>''" ascii_ieq]
  note T2 = bracketed_answer_leftmost [OF ne, of "u ''no brackets here''" ascii_ieq]
  have "60 \<notin> set (u ''no brackets here'')" by (simp add: u_def)
  then have "\<forall>pre X suf. X \<in> set ?O \<longrightarrow> u ''no brackets here'' \<noteq> pre @ 60 # X @ 62 # suf"
    by (metis in_set_conv_decomp)
  with T2 have b: "parse_bracketed_answer ascii_ieq (u ''no brackets here'') ?O = Inr no_valid_option"
    by blast
  have "u ''A'' \<in> set ?O \<and> u ''<A>'' = [] @ 60 # u ''A'' @ 62 # []" by (simp add: u_def)
  then have "\<exists>pre X suf. X \<in> set ?O \<and> u ''<A>'' = pre @ 60 # X @ 62 # suf" by blast
  with T1 obtain pre X suf where r: "parse_bracketed_answer ascii_ieq (u ''<A>'') ?O = Inr X"
    and X: "X \<in> set ?O" and t: "u ''<A>'' = pre @ 60 # X @ 62 # suf"
    by blast
  have "X = u ''A''"
  proof (rule ccontr)
    assume "X \<noteq> u ''A''"
    with X have XB: "X = [66]" by (simp add: u_def)
    from t have "length (u ''<A>'') = length (pre @ 60 # X @ 62 # suf)" by simp
    with XB have "pre = []" by (simp add: u_def)
    with t XB show False by (simp add: u_def)
  qed
  with r ne b show ?thesis by simp
qed

section \<open>Empty and blank text\<close>

text \<open>
  C7 (counterexample). The claim: for every non-empty options list, empty or blank text
  never raises. The options list whose only label is the empty string is not empty, its
  \<open>options_concat\<close> is empty, the set of the first pattern reads \<^verbatim>\<open>[])\<close> and has no end:
  \<open>re.search\<close> raises \<open>re.error\<close> on the empty text.
\<close>

theorem empty_label_counterexample:
  "[u ''''] \<noteq> [] \<and> parse_first_option ascii_ieq (u '''') [u ''''] = Inl Re_error"
  by code_simp

lemma process_options_Nil: "process_options os = [] \<longleftrightarrow> os = [] \<or> os = [[]]"
proof (cases os)
  case Nil
  then show ?thesis by (simp add: process_options_def)
next
  case (Cons x xs)
  then show ?thesis by (cases xs) (simp_all add: process_options_def re_escape_Nil)
qed

lemma strip_spaces: "\<forall>c\<in>set t. isspace c \<Longrightarrow> strip t = []"
proof -
  assume "\<forall>c\<in>set t. isspace c"
  then have d: "dropWhile isspace t = []" by (induction t) simp_all
  show ?thesis unfolding strip_def d by simp
qed

lemma option_loop_none:
  "list_all (\<lambda>p. re_search ieq True p [] = Inr None) ps \<Longrightarrow> strip t = [] \<Longrightarrow>
   option_loop ieq oc ps t = Inr []"
proof (induction ps arbitrary: t)
  case Nil
  then show ?case by simp
next
  case (Cons p ps)
  have "strip [] = []" by (simp add: strip_def)
  with Cons show ?case by simp
qed

text \<open>
  C7 (amended). For every options list other than the empty list and the list of the
  empty label alone, and every text of white space only (the empty text included),
  \<open>parse_first_option\<close>, \<open>parse_first_capital\<close> and \<open>parse_last_capital\<close> return the empty
  string and \<open>parse_bracketed_answer\<close> returns "No valid option found"; none raises.
  The Unicode tables have no uppercase character among the white space, which is the
  hypothesis on the parameter \<open>isupper\<close>.
\<close>

theorem blank_text_no_match:
  assumes "options \<noteq> []" and "options \<noteq> [[]]"
    and "\<forall>c\<in>set text. isspace c"
    and "\<forall>c. isspace c \<longrightarrow> \<not> isupper c"
  shows "parse_first_option ieq text options = Inr []
       \<and> parse_first_capital isupper text options = []
       \<and> parse_last_capital isupper text options = []
       \<and> parse_bracketed_answer ieq text options = Inr no_valid_option"
proof (intro conjI)
  have ne: "process_options options \<noteq> []"
    using assms(1,2) by (simp add: process_options_Nil)
  have st: "strip text = []" using assms(3) by (rule strip_spaces)
  show "parse_first_option ieq text options = Inr []"
    unfolding parse_first_option_def Let_def
    using empty_text_no_match [OF ne] st by (rule option_loop_none)
  have up: "\<forall>d\<in>set text. \<not> (isupper d \<and> [d] \<in> set options)"
    using assms(3,4) by blast
  then show "parse_first_capital isupper text options = []"
    unfolding parse_first_capital_def by (rule capital_scan_none)
  from up have "\<forall>d\<in>set (rev text). \<not> (isupper d \<and> [d] \<in> set options)" by simp
  then show "parse_last_capital isupper text options = []"
    unfolding parse_last_capital_def by (rule capital_scan_none)
  have "\<not> isspace 60" by (simp add: isspace_def)
  with assms(3) have "60 \<notin> set text" by blast
  then have "\<forall>pre X suf. X \<in> set (labels options) \<longrightarrow> text \<noteq> pre @ 60 # X @ 62 # suf"
    by (metis in_set_conv_decomp)
  then have "bracket_scan (labels options) text = None" by (simp only: bracket_scan_None)
  then show "parse_bracketed_answer ieq text options = Inr no_valid_option"
    by (simp add: parse_bracketed_answer_scan)
qed

theorem blank_text_witness:
  "[u ''A'', u ''B''] \<noteq> [] \<and> [u ''A'', u ''B''] \<noteq> [[]]
   \<and> parse_first_option ascii_ieq (u ''  '') [u ''A'', u ''B''] = Inr []
   \<and> parse_first_capital ascii_isupper (u ''  '') [u ''A'', u ''B''] = []
   \<and> parse_last_capital ascii_isupper (u ''  '') [u ''A'', u ''B''] = []
   \<and> parse_bracketed_answer ascii_ieq (u ''  '') [u ''A'', u ''B''] = Inr no_valid_option"
proof -
  have a: "[u ''A'', u ''B''] \<noteq> []" by simp
  have b: "[u ''A'', u ''B''] \<noteq> [[]]" by simp
  have c: "\<forall>c\<in>set (u ''  ''). isspace c" by (simp add: u_def isspace_def)
  have d: "\<forall>c. isspace c \<longrightarrow> \<not> ascii_isupper c" by (auto simp: isspace_def ascii_isupper_def)
  from blank_text_no_match [OF a b c d, of ascii_ieq] a b show ?thesis by blast
qed

section \<open>The empty options list\<close>

text \<open>
  C2 (counterexample). The claim: with an empty options list each of the four functions
  fails with \<open>InvalidInputError\<close>. Nothing in the code checks the options:
  \<open>parse_first_capital\<close>, \<open>parse_last_capital\<close> and \<open>parse_bracketed_answer\<close> return a
  string.
\<close>

theorem empty_options_counterexample:
  "parse_first_capital ascii_isupper (u ''A'') [] = []
   \<and> parse_last_capital ascii_isupper (u ''A'') [] = []
   \<and> parse_bracketed_answer ascii_ieq (u ''A'') [] = Inr no_valid_option"
  by code_simp

lemma first_pattern_rejected: "re_search ieq True (hd (patterns [])) t = Inl Re_error"
  by (simp add: patterns_def pat_def re_search_def re_compile_def escape_atom_def ascii_alnum_def
        apply_quant_def quant_of_def next_is_def)

text \<open>
  C2 (amended). With an empty options list, for every text: \<open>parse_first_capital\<close> and
  \<open>parse_last_capital\<close> return the empty string; \<open>parse_bracketed_answer\<close> returns the
  empty string when the text contains \<^verbatim>\<open><>\<close> and "No valid option found" otherwise;
  \<open>parse_first_option\<close> fails, with the \<open>re.error\<close> of its first pattern (an unterminated
  character set), there being no \<open>InvalidInputError\<close>.
\<close>

theorem empty_options_behaviour:
  "parse_first_capital isupper text [] = []
   \<and> parse_last_capital isupper text [] = []
   \<and> parse_bracketed_answer ieq text []
        = (if \<exists>pre suf. text = pre @ 60 # 62 # suf then Inr [] else Inr no_valid_option)
   \<and> parse_first_option ieq text [] = Inl Re_error"
proof (intro conjI)
  show "parse_first_capital isupper text [] = []"
    by (simp add: parse_first_capital_def capital_scan_none)
  show "parse_last_capital isupper text [] = []"
    by (simp add: parse_last_capital_def capital_scan_none)
  show "parse_bracketed_answer ieq text []
        = (if \<exists>pre suf. text = pre @ 60 # 62 # suf then Inr [] else Inr no_valid_option)"
  proof (cases "bracket_scan [[]] text")
    case None
    then have "\<not> (\<exists>pre suf. text = pre @ 60 # 62 # suf)"
      using bracket_scan_None [of "[[]]" "text"] by auto
    with None show ?thesis by (simp add: parse_bracketed_answer_scan labels_def)
  next
    case (Some X)
    from bracket_scan_Some [OF Some] have "X = []" by simp
    moreover from bracket_scan_Some [OF Some] \<open>X = []\<close>
    have "\<exists>pre suf. text = pre @ 60 # 62 # suf" by force
    ultimately have "X = []" "\<exists>pre suf. text = pre @ 60 # 62 # suf" by blast+
    with Some show ?thesis by (simp add: parse_bracketed_answer_scan labels_def)
  qed
  have "patterns [] = hd (patterns []) # tl (patterns [])" by (simp add: patterns_def)
  then have "option_loop ieq [] (patterns []) text
      = option_loop ieq [] (hd (patterns []) # tl (patterns [])) text" by simp
  also have "\<dots> = Inl Re_error"
    by (simp only: option_loop.simps Let_def first_pattern_rejected sum.case)
  finally show "parse_first_option ieq text [] = Inl Re_error"
    by (simp add: parse_first_option_def process_options_def)
qed

end
